theory Spec2Isabelle
  imports Main "HOL-Library.Word"
begin

unbundle bit_operations_syntax

section \<open>The host console\<close>

text \<open>
  The terminal layer of clink (\<^verbatim>\<open>win_terminal.cpp\<close>) talks to a Windows console. The
  console API is not part of the repository; the model keeps the part of the console the
  code reads and writes: the two console modes, the text attribute (a 16-bit \<^verbatim>\<open>WORD\<close>),
  the size fields of \<^verbatim>\<open>CONSOLE_SCREEN_BUFFER_INFO\<close>, the queue of pending input records,
  the buffers handed to \<^verbatim>\<open>WriteConsoleW\<close> and the names of the modules loaded in the
  process. Every console call on a valid handle succeeds.
\<close>

type_synonym byte = "8 word"
type_synonym wchar = "16 word"
type_synonym dword = "32 word"

datatype std_handle = STD_INPUT_HANDLE | STD_OUTPUT_HANDLE

text \<open>
  The fields of \<^verbatim>\<open>KEY_EVENT_RECORD\<close> that \<^verbatim>\<open>read_console\<close> reads, with the widths the
  console gives them: \<^verbatim>\<open>WCHAR UnicodeChar\<close>, \<^verbatim>\<open>WORD wVirtualKeyCode\<close>,
  \<^verbatim>\<open>WORD wVirtualScanCode\<close>, \<^verbatim>\<open>DWORD dwControlKeyState\<close>. A character outside the basic
  plane reaches the program as two records, one UTF-16 unit each.
\<close>

record key_event_record =
  bKeyDown :: bool
  UnicodeChar :: wchar
  wVirtualKeyCode :: "16 word"
  wVirtualScanCode :: "16 word"
  dwControlKeyState :: dword

datatype input_record = KEY_EVENT key_event_record | OTHER_EVENT

record console =
  input_mode :: dword
  output_mode :: dword
  wAttributes :: "16 word"
  dwSize_X :: int
  srWindow_Top :: int
  srWindow_Bottom :: int
  input_queue :: "input_record list"
  written :: "wchar list list"
  modules :: "string set"

definition ENABLE_WINDOW_INPUT :: dword where "ENABLE_WINDOW_INPUT = 0x0008"

definition RIGHT_ALT_PRESSED :: dword where "RIGHT_ALT_PRESSED = 0x0001"
definition LEFT_ALT_PRESSED :: dword where "LEFT_ALT_PRESSED = 0x0002"
definition RIGHT_CTRL_PRESSED :: dword where "RIGHT_CTRL_PRESSED = 0x0004"
definition LEFT_CTRL_PRESSED :: dword where "LEFT_CTRL_PRESSED = 0x0008"
definition SHIFT_PRESSED :: dword where "SHIFT_PRESSED = 0x0010"
definition ENHANCED_KEY :: dword where "ENHANCED_KEY = 0x0100"
definition CTRL_PRESSED :: dword where
  "CTRL_PRESSED = (LEFT_CTRL_PRESSED OR RIGHT_CTRL_PRESSED)"

text \<open>The virtual-key codes, of the width of the place they are used at.\<close>

definition VK_MENU :: "'a::len word" where "VK_MENU = 0x12"
definition VK_PRIOR :: "'a::len word" where "VK_PRIOR = 0x21"
definition VK_NEXT :: "'a::len word" where "VK_NEXT = 0x22"
definition VK_END :: "'a::len word" where "VK_END = 0x23"
definition VK_HOME :: "'a::len word" where "VK_HOME = 0x24"
definition VK_LEFT :: "'a::len word" where "VK_LEFT = 0x25"
definition VK_UP :: "'a::len word" where "VK_UP = 0x26"
definition VK_RIGHT :: "'a::len word" where "VK_RIGHT = 0x27"
definition VK_DOWN :: "'a::len word" where "VK_DOWN = 0x28"
definition VK_INSERT :: "'a::len word" where "VK_INSERT = 0x2D"
definition VK_DELETE :: "'a::len word" where "VK_DELETE = 0x2E"

section \<open>The session\<close>

datatype seq_kind = Idle | GotEsc | InCsi

text \<open>
  Modelled from the spec: \<^verbatim>\<open>ecma48_state\<close> (terminal/ecma48_iter.h) is not among the
  sources. The spec's ParseState holds the kind of sequence being assembled and what has
  been scanned of it so far; the model keeps the raw bytes of the partial sequence.
\<close>

record ecma48_state =
  kind :: seq_kind
  pending :: "byte list"

text \<open>
  The members of \<^verbatim>\<open>win_terminal_in\<close>, \<^verbatim>\<open>win_terminal_out\<close> and \<^verbatim>\<open>win_terminal\<close>,
  with the file-scope \<^verbatim>\<open>g_last_buffer_size\<close>. The class declarations (win_terminal.h)
  are not among the sources: the element count of \<^verbatim>\<open>m_buffer\<close> is the parameter
  \<open>cap\<close> of the functions below, and head and count are natural numbers.
  \<^verbatim>\<open>on_terminal_resize\<close> is only declared; the model counts its calls.
\<close>

record win_terminal =
  m_stdin :: "std_handle option"
  m_prev_mode_in :: dword
  m_buffer_head :: nat
  m_buffer_count :: nat
  m_buffer :: "byte list"
  m_stdout :: "std_handle option"
  m_default_attr :: byte
  m_attr :: byte
  m_prev_mode_out :: dword
  m_state :: ecma48_state
  m_enable_c1 :: bool
  g_last_buffer_size :: dword
  resize_signals :: nat

record settings =
  g_altgr :: bool
  g_ansi :: bool

section \<open>The input ring buffer\<close>

text \<open>
  Modelled from the spec: \<^verbatim>\<open>to_utf8\<close> (core/str.h) is not among the sources. The spec
  says that values from 0x80 are converted from the host's UTF-16 representation,
  composing surrogate pairs, and UTF-8-encoded. \<open>utf8_bytes\<close> is the UTF-8 encoding of
  one code point; \<open>utf16_decode\<close> composes surrogate pairs (the spec says nothing of an
  unpaired surrogate: it is kept as a code point of its own); the wide string ends at
  its first zero unit.
\<close>

definition utf8_bytes :: "nat \<Rightarrow> byte list" where
  "utf8_bytes c =
     (if c < 0x80 then [of_nat c]
      else if c < 0x800 then [of_nat (0xC0 + c div 64), of_nat (0x80 + c mod 64)]
      else if c < 0x10000 then
        [of_nat (0xE0 + c div 4096), of_nat (0x80 + c div 64 mod 64), of_nat (0x80 + c mod 64)]
      else
        [of_nat (0xF0 + c div 262144), of_nat (0x80 + c div 4096 mod 64),
         of_nat (0x80 + c div 64 mod 64), of_nat (0x80 + c mod 64)])"

fun utf16_decode :: "wchar list \<Rightarrow> nat list" where
  "utf16_decode [] = []"
| "utf16_decode [u] = [unat u]"
| "utf16_decode (u # v # us) =
     (if 0xD800 \<le> u \<and> u < 0xDC00 \<and> 0xDC00 \<le> v \<and> v < 0xE000
      then (0x10000 + (unat u - 0xD800) * 1024 + (unat v - 0xDC00)) # utf16_decode us
      else unat u # utf16_decode (v # us))"

definition to_utf8 :: "wchar list \<Rightarrow> byte list" where
  "to_utf8 wc = concat (map utf8_bytes (utf16_decode (takeWhile (\<lambda>u. u \<noteq> 0) wc)))"

text \<open>
  \<^verbatim>\<open>push\<close> and the functions that call it take the transcoder as their first argument
  \<open>enc\<close>: the wide string handed over (the one unit and its terminator), to the bytes
  written to \<^verbatim>\<open>utf8\<close>, whose number is the value returned. \<open>to_utf8\<close> above is the
  transcoder as the spec describes it.
\<close>

type_synonym to_utf8_fn = "wchar list \<Rightarrow> byte list"

text \<open>
  \<^verbatim>\<open>static const unsigned char mask = sizeof_array(m_buffer) - 1\<close>: the element count
  less one, cut to a byte.
\<close>

definition mask_of :: "nat \<Rightarrow> nat" where
  "mask_of cap = (cap - 1) mod 256"

text \<open>The loop of \<^verbatim>\<open>push\<close> that copies the encoded bytes, \<^verbatim>\<open>index\<close> rising with each.\<close>

fun store_bytes :: "nat \<Rightarrow> nat \<Rightarrow> byte list \<Rightarrow> byte list \<Rightarrow> byte list" where
  "store_bytes msk index [] buf = buf"
| "store_bytes msk index (b # bs) buf = store_bytes msk (index + 1) bs (buf[index AND msk := b])"

definition push :: "to_utf8_fn \<Rightarrow> nat \<Rightarrow> dword \<Rightarrow> win_terminal \<Rightarrow> win_terminal" where
  "push enc cap v t =
     (if m_buffer_count t \<ge> cap then t
      else
        let index = m_buffer_head t + m_buffer_count t in
        if v < 0x80 then
          t\<lparr>m_buffer := (m_buffer t)[index AND mask_of cap := ucast v],
            m_buffer_count := m_buffer_count t + 1\<rparr>
        else
          let wc = [ucast v, 0 :: wchar];
              utf8 = enc wc;
              n = length utf8;
              t' = (if n \<le> mask_of cap - m_buffer_count t
                    then t\<lparr>m_buffer := store_bytes (mask_of cap) index utf8 (m_buffer t)\<rparr>
                    else t)
          in t'\<lparr>m_buffer_count := m_buffer_count t + n\<rparr>)"

text \<open>\<^verbatim>\<open>pop\<close> returns the byte and the new state; 0xff when the buffer is empty.\<close>

definition pop :: "nat \<Rightarrow> win_terminal \<Rightarrow> byte \<times> win_terminal" where
  "pop cap t =
     (if m_buffer_count t = 0 then (0xff, t)
      else
        (m_buffer t ! m_buffer_head t,
         t\<lparr>m_buffer_count := m_buffer_count t - 1,
           m_buffer_head := (m_buffer_head t + 1) AND (cap - 1)\<rparr>))"

definition read :: "nat \<Rightarrow> win_terminal \<Rightarrow> byte \<times> win_terminal" where
  "read cap t = (let (c, t') = pop cap t in if c \<noteq> 0xff then (c, t') else (0x04, t'))"

text \<open>What \<open>n\<close> successive calls of \<^verbatim>\<open>pop\<close> return.\<close>

fun pops :: "nat \<Rightarrow> nat \<Rightarrow> win_terminal \<Rightarrow> byte list" where
  "pops cap 0 t = []"
| "pops cap (Suc n) t = (let (c, t') = pop cap t in c # pops cap n t')"

section \<open>Console calls\<close>

definition GetConsoleMode :: "std_handle option \<Rightarrow> console \<Rightarrow> dword option" where
  "GetConsoleMode hnd h =
     (case hnd of
        None \<Rightarrow> None
      | Some STD_INPUT_HANDLE \<Rightarrow> Some (input_mode h)
      | Some STD_OUTPUT_HANDLE \<Rightarrow> Some (output_mode h))"

definition SetConsoleMode :: "std_handle option \<Rightarrow> dword \<Rightarrow> console \<Rightarrow> console" where
  "SetConsoleMode hnd m h =
     (case hnd of
        None \<Rightarrow> h
      | Some STD_INPUT_HANDLE \<Rightarrow> h\<lparr>input_mode := m\<rparr>
      | Some STD_OUTPUT_HANDLE \<Rightarrow> h\<lparr>output_mode := m\<rparr>)"

definition SetConsoleTextAttribute :: "std_handle option \<Rightarrow> 16 word \<Rightarrow> console \<Rightarrow> console" where
  "SetConsoleTextAttribute hnd a h =
     (if hnd = Some STD_OUTPUT_HANDLE then h\<lparr>wAttributes := a\<rparr> else h)"

definition WriteConsoleW :: "std_handle option \<Rightarrow> wchar list \<Rightarrow> console \<Rightarrow> console" where
  "WriteConsoleW hnd chars h =
     (if hnd = Some STD_OUTPUT_HANDLE then h\<lparr>written := written h @ [chars]\<rparr> else h)"

section \<open>Session begin and end\<close>

definition in_begin :: "win_terminal \<times> console \<Rightarrow> win_terminal \<times> console" where
  "in_begin = (\<lambda>(t, h).
     let t1 = t\<lparr>m_buffer_count := 0, m_stdin := Some STD_INPUT_HANDLE\<rparr>;
         t2 = (case GetConsoleMode (m_stdin t1) h of
                 None \<Rightarrow> t1
               | Some m \<Rightarrow> t1\<lparr>m_prev_mode_in := m\<rparr>)
     in (t2, SetConsoleMode (m_stdin t2) ENABLE_WINDOW_INPUT h))"

definition in_end :: "win_terminal \<times> console \<Rightarrow> win_terminal \<times> console" where
  "in_end = (\<lambda>(t, h).
     (t\<lparr>m_stdin := None\<rparr>, SetConsoleMode (m_stdin t) (m_prev_mode_in t) h))"

definition out_begin :: "win_terminal \<times> console \<Rightarrow> win_terminal \<times> console" where
  "out_begin = (\<lambda>(t, h).
     let t1 = t\<lparr>m_stdout := Some STD_OUTPUT_HANDLE\<rparr>;
         t2 = t1\<lparr>m_default_attr := ucast (wAttributes h AND 0xff)\<rparr>;
         t3 = t2\<lparr>m_attr := m_default_attr t2\<rparr>;
         t4 = (case GetConsoleMode (m_stdout t3) h of
                 None \<Rightarrow> t3
               | Some m \<Rightarrow> t3\<lparr>m_prev_mode_out := m\<rparr>)
     in (t4, h))"

definition out_end :: "win_terminal \<times> console \<Rightarrow> win_terminal \<times> console" where
  "out_end = (\<lambda>(t, h).
     let h1 = SetConsoleMode (m_stdout t) (m_prev_mode_out t) h;
         h2 = SetConsoleTextAttribute (m_stdout t) (ucast (m_default_attr t)) h1
     in (t\<lparr>m_stdout := None\<rparr>, h2))"

text \<open>
  \<^verbatim>\<open>win_terminal::begin\<close> and \<^verbatim>\<open>win_terminal::end\<close>, here \<open>begin_session\<close> and
  \<open>end_session\<close>.
\<close>

definition begin_session :: "win_terminal \<times> console \<Rightarrow> win_terminal \<times> console" where
  "begin_session s = out_begin (in_begin s)"

definition end_session :: "win_terminal \<times> console \<Rightarrow> win_terminal \<times> console" where
  "end_session s = in_end (out_end s)"

section \<open>The input encoder\<close>

definition enhanced_vks :: "dword list" where
  "enhanced_vks =
     [VK_UP, VK_DOWN, VK_LEFT, VK_RIGHT, VK_HOME, VK_END, VK_INSERT, VK_DELETE, VK_PRIOR, VK_NEXT]"

text \<open>The rows of \<^verbatim>\<open>mod_map\<close>: scan code, normal character, shifted character.\<close>

definition mod_map :: "(dword \<times> dword \<times> dword) list" where
  "mod_map =
     [(of_char CHR ''H'', of_char CHR ''A'', of_char CHR ''a''),
      (of_char CHR ''P'', of_char CHR ''B'', of_char CHR ''b''),
      (of_char CHR ''K'', of_char CHR ''D'', of_char CHR ''d''),
      (of_char CHR ''M'', of_char CHR ''C'', of_char CHR ''c''),
      (of_char CHR ''R'', of_char CHR ''2'', of_char CHR ''w''),
      (of_char CHR ''S'', of_char CHR ''3'', of_char CHR ''e''),
      (of_char CHR ''G'', of_char CHR ''1'', of_char CHR ''q''),
      (of_char CHR ''O'', of_char CHR ''4'', of_char CHR ''r''),
      (of_char CHR ''I'', of_char CHR ''5'', of_char CHR ''t''),
      (of_char CHR ''Q'', of_char CHR ''6'', of_char CHR ''y'')]"

text \<open>
  The loop over \<^verbatim>\<open>mod_map\<close>: at the first row whose scan code is \<^verbatim>\<open>key_sc\<close> three bytes
  are pushed; \<open>None\<close> when no row matches (the code then polls again).
\<close>

fun push_mod_map ::
  "to_utf8_fn \<Rightarrow> nat \<Rightarrow> (dword \<times> dword \<times> dword) list \<Rightarrow> dword \<Rightarrow> dword \<Rightarrow> win_terminal \<Rightarrow> win_terminal option"
where
  "push_mod_map enc cap [] key_sc key_flags t = None"
| "push_mod_map enc cap ((sc, nrml, shft) # rows) key_sc key_flags t =
     (if sc \<noteq> key_sc then push_mod_map enc cap rows key_sc key_flags t
      else
        let t1 = push enc cap 0x1b t;
            t2 = push enc cap (if key_flags AND CTRL_PRESSED \<noteq> 0 then of_char CHR ''O''
                           else of_char CHR ''['') t1
        in Some (push enc cap (if key_flags AND SHIFT_PRESSED \<noteq> 0 then shft else nrml) t2))"

text \<open>
  \<^verbatim>\<open>CONTAINS(l, r)\<close> is \<^verbatim>\<open>(unsigned)(key_vk - l) <= (r - l)\<close>. \<open>ctrl_map\<close> is the chain that
  rewrites \<^verbatim>\<open>key_vk\<close> for a Ctrl-key: the new \<^verbatim>\<open>key_vk\<close>, or \<open>None\<close> where the chain ends
  in \<^verbatim>\<open>return read_console()\<close>.
\<close>

definition CONTAINS :: "dword \<Rightarrow> dword \<Rightarrow> dword \<Rightarrow> bool" where
  "CONTAINS key_vk l r = (key_vk - l \<le> r - l)"

definition ctrl_map :: "dword \<Rightarrow> dword option" where
  "ctrl_map key_vk =
     (if CONTAINS key_vk (of_char CHR ''A'') (of_char CHR ''Z'')
        then Some (key_vk - (of_char CHR ''A'' - 1))
      else if CONTAINS key_vk 0xdb 0xdd then Some (key_vk - (0xdb - 0x1b))
      else if key_vk = 0x32 then Some 0
      else if key_vk = 0x36 then Some 0x1e
      else if key_vk = 0xbd then Some 0x1f
      else None)"

text \<open>
  The part of \<^verbatim>\<open>read_console\<close> that handles one key event (from
  \<^verbatim>\<open>const KEY_EVENT_RECORD* key\<close> to the end of the function). The fields are copied into
  the \<^verbatim>\<open>int\<close> locals \<^verbatim>\<open>key_char\<close>, \<^verbatim>\<open>key_vk\<close>, \<^verbatim>\<open>key_sc\<close> and \<^verbatim>\<open>key_flags\<close>. \<open>None\<close> stands for the
  paths that call \<^verbatim>\<open>read_console()\<close> again without having pushed anything.
\<close>

definition encode_key ::
  "to_utf8_fn \<Rightarrow> settings \<Rightarrow> nat \<Rightarrow> key_event_record \<Rightarrow> win_terminal \<Rightarrow> win_terminal option"
where
  "encode_key enc cfg cap key t =
     (let key_char = (ucast (UnicodeChar key) :: dword);
          key_vk = (ucast (wVirtualKeyCode key) :: dword);
          key_sc = (ucast (wVirtualScanCode key) :: dword);
          key_flags = dwControlKeyState key
      in
      if \<not> bKeyDown key then
        (if key_vk = VK_MENU \<and> key_char \<noteq> 0 then Some (push enc cap key_char t) else None)
      else
        let altgr_sub0 = (key_flags AND LEFT_ALT_PRESSED \<noteq> 0
                          \<and> key_flags AND (LEFT_CTRL_PRESSED OR RIGHT_CTRL_PRESSED) \<noteq> 0
                          \<and> key_char \<noteq> 0);
            (altgr_sub, key_char) =
               (if altgr_sub0 \<and> \<not> g_altgr cfg then (False, 0) else (altgr_sub0, key_char));
            alt = (if \<not> altgr_sub
                   then key_flags AND (LEFT_ALT_PRESSED OR RIGHT_ALT_PRESSED) \<noteq> 0
                   else False)
        in
        if key_char = 0 then
          let key_flags = (if key_vk \<in> set enhanced_vks then key_flags OR ENHANCED_KEY
                           else key_flags)
          in
          if key_flags AND ENHANCED_KEY \<noteq> 0 then push_mod_map enc cap mod_map key_sc key_flags t
          else if key_flags AND CTRL_PRESSED = 0 then None
          else
            (case ctrl_map key_vk of
               None \<Rightarrow> None
             | Some key_vk' \<Rightarrow> Some (push enc cap key_char t))
        else if key_char = 0x09 \<and> m_buffer_count t = 0 \<and> key_flags AND SHIFT_PRESSED \<noteq> 0 then
          Some (push enc cap (of_char CHR ''Z'') (push enc cap (of_char CHR ''['') (push enc cap 0x1b t)))
        else
          let t1 = (if alt then push enc cap 0x1b t else t)
          in Some (push enc cap key_char t1))"

text \<open>
  The value \<^verbatim>\<open>i\<close> that \<^verbatim>\<open>read_console\<close> compares with \<^verbatim>\<open>g_last_buffer_size\<close>:
  \<^verbatim>\<open>(csbi.dwSize.X << 16) | ((csbi.srWindow.Bottom - csbi.srWindow.Top) + 1)\<close>.
\<close>

definition buffer_size_word :: "console \<Rightarrow> dword" where
  "buffer_size_word h =
     (push_bit 16 (word_of_int (dwSize_X h)) OR word_of_int (srWindow_Bottom h - srWindow_Top h + 1))"

text \<open>
  \<^verbatim>\<open>read_console\<close>. Each call of \<^verbatim>\<open>ReadConsoleInputW\<close> takes the next record of the
  console's queue; on an empty queue the call would block, which is the result \<open>None\<close>.
  When the size word \<^verbatim>\<open>i\<close> is 0 the first test holds on every entry and the source
  calls itself without end: that too is \<open>None\<close>. The branch for
  \<^verbatim>\<open>WINDOW_BUFFER_SIZE_EVENT\<close> comes after the return for every record that is not a
  key event and is never taken.
\<close>

function read_console ::
  "to_utf8_fn \<Rightarrow> settings \<Rightarrow> nat \<Rightarrow> win_terminal \<times> console \<Rightarrow> (win_terminal \<times> console) option"
where
  "read_console enc cfg cap (t, h) =
     (let i = buffer_size_word h in
      if g_last_buffer_size t = 0 \<or> g_last_buffer_size t \<noteq> i then
        (if i = 0 then None
         else read_console enc cfg cap
                (t\<lparr>resize_signals :=
                      (if g_last_buffer_size t \<noteq> 0 then resize_signals t + 1
                       else resize_signals t),
                   g_last_buffer_size := i\<rparr>, h))
      else
        (case input_queue h of
           [] \<Rightarrow> None
         | rcd # rest \<Rightarrow>
             (case rcd of
                OTHER_EVENT \<Rightarrow> read_console enc cfg cap (t, h\<lparr>input_queue := rest\<rparr>)
              | KEY_EVENT key \<Rightarrow>
                  (case encode_key enc cfg cap key t of
                     None \<Rightarrow> read_console enc cfg cap (t, h\<lparr>input_queue := rest\<rparr>)
                   | Some t' \<Rightarrow> Some (t', h\<lparr>input_queue := rest\<rparr>)))))"
  by pat_completeness auto
termination
  by (relation "measure (\<lambda>(enc, cfg, cap, t, h).
        2 * length (input_queue h)
        + (if g_last_buffer_size t = buffer_size_word h then 0 else 1))") auto

definition select ::
  "to_utf8_fn \<Rightarrow> settings \<Rightarrow> nat \<Rightarrow> win_terminal \<times> console \<Rightarrow> (win_terminal \<times> console) option"
where
  "select enc cfg cap = (\<lambda>(t, h).
     if m_buffer_count t = 0 then read_console enc cfg cap (t, h) else Some (t, h))"

text \<open>
  The ring as the proofs see it: a power-of-two element count that fits the byte mask, a
  buffer of that length and a head inside it.
\<close>

definition ring_ok :: "nat \<Rightarrow> win_terminal \<Rightarrow> bool" where
  "ring_ok k t = (k \<le> 8 \<and> length (m_buffer t) = 2 ^ k \<and> m_buffer_head t < 2 ^ k)"

text \<open>
  What a call of \<^verbatim>\<open>push\<close> is asked to store, and the room that makes it store it: a
  value below 0x80 needs one free element; an encoded value passes the test
  \<^verbatim>\<open>n <= mask - m_buffer_count\<close>.
\<close>

definition pushed_bytes :: "to_utf8_fn \<Rightarrow> dword \<Rightarrow> byte list" where
  "pushed_bytes enc v = (if v < 0x80 then [ucast v] else enc [ucast v, 0])"

definition has_room :: "to_utf8_fn \<Rightarrow> nat \<Rightarrow> dword \<Rightarrow> win_terminal \<Rightarrow> bool" where
  "has_room enc cap v t =
     (if v < 0x80 then m_buffer_count t < cap
      else m_buffer_count t + length (pushed_bytes enc v) < cap)"

section \<open>The output renderer\<close>

text \<open>
  \<^verbatim>\<open>to_utf16\<close> and \<^verbatim>\<open>str_iter\<close> (core/str.h, core/str_iter.h) are not among the sources.
  The transcoder is a parameter of the model: given the size of \<^verbatim>\<open>wbuf\<close> offered and the
  bytes not yet consumed, it returns the units it wrote and the number of bytes it
  consumed.
\<close>

type_synonym to_utf16_fn = "nat \<Rightarrow> byte list \<Rightarrow> wchar list \<times> nat"

definition out_write_wide :: "wchar list \<Rightarrow> win_terminal \<times> console \<Rightarrow> win_terminal \<times> console" where
  "out_write_wide chars = (\<lambda>(t, h). (t, WriteConsoleW (m_stdout t) chars h))"

text \<open>
  \<^verbatim>\<open>win_terminal_out::write(const char*, int)\<close>. A pass in which the transcoder consumes
  nothing leaves \<^verbatim>\<open>length\<close> as it was and the loop never ends: the result \<open>None\<close>.
\<close>

function out_write ::
  "to_utf16_fn \<Rightarrow> byte list \<Rightarrow> win_terminal \<times> console \<Rightarrow> (win_terminal \<times> console) option"
where
  "out_write tu chars s =
     (if length chars > 0 then
        let n = min 256 (length chars + 1);
            (wbuf, used) = tu n chars
        in if used = 0 then None
           else out_write tu (drop used chars) (out_write_wide wbuf s)
      else Some s)"
  by pat_completeness auto
termination
  by (relation "measure (\<lambda>(tu, chars, s). length chars)") auto

definition get_default_attr :: "win_terminal \<Rightarrow> byte" where
  "get_default_attr t = m_default_attr t"

definition get_attr :: "win_terminal \<Rightarrow> byte" where
  "get_attr t = m_attr t"

definition set_attr :: "byte \<Rightarrow> win_terminal \<times> console \<Rightarrow> win_terminal \<times> console" where
  "set_attr attr = (\<lambda>(t, h).
     (t\<lparr>m_attr := attr\<rparr>, SetConsoleTextAttribute (m_stdout t) (ucast attr) h))"

definition sgr_to_attr :: "byte list" where
  "sgr_to_attr = [0, 4, 2, 6, 1, 5, 3, 7]"

text \<open>
  One pass of the loop of \<^verbatim>\<open>write_sgr\<close> over \<^verbatim>\<open>int param\<close>. The comparisons
  \<^verbatim>\<open>param - 30 < 8\<close> are comparisons of \<^verbatim>\<open>int\<close>, as in the source; the index
  \<^verbatim>\<open>(param - 30) & 7\<close> is the two's-complement conjunction.
\<close>

definition sgr_param :: "byte \<Rightarrow> byte \<Rightarrow> int \<Rightarrow> byte" where
  "sgr_param dflt attr param =
     (if param = 0 then dflt
      else if param = 1 then attr OR 0x08
      else if param = 2 \<or> param = 22 then attr AND NOT 0x08
      else if param = 4 then attr OR 0x80
      else if param = 24 then attr AND NOT 0x80
      else if param - 30 < 8 then
        (attr AND 0xf8) OR sgr_to_attr ! nat ((param - 30) AND 7)
      else if param - 90 < 8 then
        ((attr OR 0x08) AND 0xf8) OR sgr_to_attr ! nat ((param - 90) AND 7)
      else if param = 39 then (attr AND 0xf8) OR (dflt AND 0x07)
      else if param - 40 < 8 then
        (attr AND 0x8f) OR push_bit 4 (sgr_to_attr ! nat ((param - 40) AND 7))
      else if param - 100 < 8 then
        ((attr OR 0x80) AND 0x8f) OR push_bit 4 (sgr_to_attr ! nat ((param - 100) AND 7))
      else if param = 49 then (attr AND 0x8f) OR (dflt AND 0x70)
      else if param = 38 \<or> param = 48 then attr
      else attr)"

fun sgr_params :: "byte \<Rightarrow> byte \<Rightarrow> int list \<Rightarrow> byte" where
  "sgr_params dflt attr [] = attr"
| "sgr_params dflt attr (param # params) = sgr_params dflt (sgr_param dflt attr param) params"

definition write_sgr :: "int list \<Rightarrow> win_terminal \<times> console \<Rightarrow> win_terminal \<times> console" where
  "write_sgr params = (\<lambda>(t, h).
     set_attr (sgr_params (get_default_attr t) (get_attr t) params) (t, h))"

subsection \<open>Decoded codes\<close>

datatype code_type = type_chars | type_c0 | type_c1

text \<open>
  Modelled from the spec: \<^verbatim>\<open>ecma48_code\<close> and \<^verbatim>\<open>ecma48_iter\<close> (terminal/ecma48_iter.h)
  are not among the sources. A code is what \<^verbatim>\<open>write\<close> asks of it: its type, its code
  value, and the bytes it spans (\<^verbatim>\<open>get_pointer\<close>, \<^verbatim>\<open>get_length\<close>). The spec's Code is a
  text run, a single control byte, or a control sequence with a final character and a
  list of integer parameters.
\<close>

record ecma48_code =
  get_type :: code_type
  get_code :: int
  get_chars :: "byte list"

definition c1_csi :: int where "c1_csi = 0x5b"

definition is_param_byte :: "byte \<Rightarrow> bool" where
  "is_param_byte b = ((0x30 \<le> b \<and> b \<le> 0x39) \<or> b = 0x3b)"

text \<open>
  Modelled from the spec: the parameters of a control sequence are the decimal numbers
  between the semicolons, an empty one counting as 0.
\<close>

fun parse_params :: "int \<Rightarrow> byte list \<Rightarrow> int list" where
  "parse_params cur [] = [cur]"
| "parse_params cur (b # bs) =
     (if b = 0x3b then cur # parse_params 0 bs
      else parse_params (cur * 10 + (uint b - 0x30)) bs)"

text \<open>
  Modelled from the spec: \<^verbatim>\<open>decode_csi\<close> gives the final character and the parameters of
  a sequence ESC [ ... final, at most \<open>max_params\<close> of them; the excess is discarded.
\<close>

definition decode_csi :: "ecma48_code \<Rightarrow> nat \<Rightarrow> int \<times> int list" where
  "decode_csi code max_params =
     (let body = drop 2 (get_chars code);
          final = (case dropWhile is_param_byte body of [] \<Rightarrow> 0 | f # _ \<Rightarrow> uint f)
      in (final, take max_params (parse_params 0 (takeWhile is_param_byte body))))"

definition chars_code :: "byte list \<Rightarrow> ecma48_code" where
  "chars_code run = \<lparr>get_type = type_chars, get_code = 0, get_chars = run\<rparr>"

definition c0_code :: "byte \<Rightarrow> ecma48_code" where
  "c0_code b = \<lparr>get_type = type_c0, get_code = uint b, get_chars = [b]\<rparr>"

definition csi_code :: "byte list \<Rightarrow> ecma48_code" where
  "csi_code bs = \<lparr>get_type = type_c1, get_code = c1_csi, get_chars = bs\<rparr>"

definition idle_state :: ecma48_state where
  "idle_state = \<lparr>kind = Idle, pending = []\<rparr>"

text \<open>A text run ends at a control introducer or at the end of the input.\<close>

definition flush_run :: "byte list \<Rightarrow> ecma48_code list" where
  "flush_run run = (if run = [] then [] else [chars_code run])"

text \<open>
  Modelled from the spec: one byte seen outside any sequence. ESC may start a sequence;
  any other byte below 0x20 is a C0 control code; any other byte extends the text run.
  The results are the codes completed, the parse state and the text run still open.
\<close>

definition scan_idle :: "byte list \<Rightarrow> byte \<Rightarrow> ecma48_code list \<times> ecma48_state \<times> byte list" where
  "scan_idle run b =
     (if b = 0x1b then (flush_run run, \<lparr>kind = GotEsc, pending = [b]\<rparr>, [])
      else if b < 0x20 then (flush_run run @ [c0_code b], idle_state, [])
      else ([], idle_state, run @ [b]))"

text \<open>
  Modelled from the spec: one byte of the scan. After ESC, \<open>[\<close> opens a control sequence;
  any other byte leaves the ESC a single C0 code and is classified afresh. Inside a
  control sequence digits and \<open>;\<close> accumulate, and the first other byte is the final
  character.
\<close>

definition scan_byte ::
  "ecma48_state \<Rightarrow> byte list \<Rightarrow> byte \<Rightarrow> ecma48_code list \<times> ecma48_state \<times> byte list"
where
  "scan_byte st run b =
     (case kind st of
        Idle \<Rightarrow> scan_idle run b
      | GotEsc \<Rightarrow>
          if b = 0x5b then ([], \<lparr>kind = InCsi, pending = pending st @ [b]\<rparr>, [])
          else (let (cs, st', run') = scan_idle [] b in (c0_code 0x1b # cs, st', run'))
      | InCsi \<Rightarrow>
          if is_param_byte b then ([], st\<lparr>pending := pending st @ [b]\<rparr>, [])
          else ([csi_code (pending st @ [b])], idle_state, []))"

text \<open>
  Modelled from the spec: the scan of one chunk, byte by byte. The text run still open
  when the chunk ends is returned apart: the end of the input closes it.
\<close>

fun scan_steps ::
  "ecma48_state \<Rightarrow> byte list \<Rightarrow> byte list \<Rightarrow> ecma48_code list \<times> ecma48_state \<times> byte list"
where
  "scan_steps st run [] = ([], st, run)"
| "scan_steps st run (b # bs) =
     (let (cs, st', run') = scan_byte st run b;
          (rest, st'', run'') = scan_steps st' run' bs
      in (cs @ rest, st'', run''))"

text \<open>
  Modelled from the spec: all the codes that the calls of \<^verbatim>\<open>ecma48_iter::next\<close> yield for
  one chunk, and the parse state the chunk leaves behind.
\<close>

definition ecma48_iter :: "byte list \<Rightarrow> ecma48_state \<Rightarrow> ecma48_code list \<times> ecma48_state" where
  "ecma48_iter chars st =
     (let (cs, st', run) = scan_steps st [] chars in (cs @ flush_run run, st'))"

subsection \<open>Rendering\<close>

definition write_c1 ::
  "to_utf16_fn \<Rightarrow> ecma48_code \<Rightarrow> win_terminal \<times> console \<Rightarrow> (win_terminal \<times> console) option"
where
  "write_c1 tu code = (\<lambda>(t, h).
     if \<not> m_enable_c1 t then out_write tu (get_chars code) (t, h)
     else if get_code code \<noteq> c1_csi then Some (t, h)
     else
       let (final, params) = decode_csi code 32
       in if final = 0x6d then Some (write_sgr params (t, h)) else Some (t, h))"

definition write_c0 :: "int \<Rightarrow> win_terminal \<times> console \<Rightarrow> win_terminal \<times> console" where
  "write_c0 c0 s = (if c0 = 0x07 then s else out_write_wide [word_of_int c0] s)"

text \<open>The body of the loop of \<^verbatim>\<open>win_terminal::write\<close>, and the loop over the codes.\<close>

definition write_code ::
  "to_utf16_fn \<Rightarrow> ecma48_code \<Rightarrow> win_terminal \<times> console \<Rightarrow> (win_terminal \<times> console) option"
where
  "write_code tu code s =
     (case get_type code of
        type_chars \<Rightarrow> out_write tu (get_chars code) s
      | type_c0 \<Rightarrow> Some (write_c0 (get_code code) s)
      | type_c1 \<Rightarrow> write_c1 tu code s)"

fun write_codes ::
  "to_utf16_fn \<Rightarrow> ecma48_code list \<Rightarrow> win_terminal \<times> console \<Rightarrow> (win_terminal \<times> console) option"
where
  "write_codes tu [] s = Some s"
| "write_codes tu (code # codes) s =
     (case write_code tu code s of None \<Rightarrow> None | Some s' \<Rightarrow> write_codes tu codes s')"

text \<open>
  \<^verbatim>\<open>win_terminal::write\<close>, here \<open>terminal_write\<close>. The iterator updates the parse state as
  it goes; none of the calls in the loop reads it, so the model stores it first.
\<close>

definition terminal_write ::
  "to_utf16_fn \<Rightarrow> byte list \<Rightarrow> win_terminal \<times> console \<Rightarrow> (win_terminal \<times> console) option"
where
  "terminal_write tu chars = (\<lambda>(t, h).
     let (codes, st) = ecma48_iter chars (m_state t)
     in write_codes tu codes (t\<lparr>m_state := st\<rparr>, h))"

text \<open>Two calls of \<^verbatim>\<open>write\<close> in a row; the second is not reached when the first does not return.\<close>

definition write_twice ::
  "to_utf16_fn \<Rightarrow> byte list \<Rightarrow> byte list \<Rightarrow> win_terminal \<times> console \<Rightarrow> (win_terminal \<times> console) option"
where
  "write_twice tu a b s = (case terminal_write tu a s of None \<Rightarrow> None | Some s' \<Rightarrow> terminal_write tu b s')"

subsection \<open>The capability probe\<close>

definition dll_names :: "string list" where
  "dll_names = [''conemuhk.dll'', ''conemuhk64.dll'', ''ansi.dll'', ''ansi32.dll'', ''ansi64.dll'']"

definition GetModuleHandle :: "string \<Rightarrow> console \<Rightarrow> bool" where
  "GetModuleHandle name h = (name \<in> modules h)"

fun find_module :: "string list \<Rightarrow> console \<Rightarrow> bool" where
  "find_module [] h = False"
| "find_module (dll_name # names) h = (if GetModuleHandle dll_name h then True else find_module names h)"

definition check_c1_support :: "settings \<Rightarrow> win_terminal \<times> console \<Rightarrow> win_terminal \<times> console" where
  "check_c1_support cfg = (\<lambda>(t, h).
     if find_module dll_names h then (t\<lparr>m_enable_c1 := False\<rparr>, h)
     else (t\<lparr>m_enable_c1 := \<not> g_ansi cfg\<rparr>, h))"

section \<open>The deprecated subprocess call\<close>

text \<open>
  The values of the Lua stack that \<^verbatim>\<open>lua_execute\<close> meets. A table is the list of the
  key-value pairs stored in it, the latest first. The Lua API is not part of the
  repository; the model follows the reference manual: \<^verbatim>\<open>lua_isstring\<close> holds of strings and
  of numbers, and \<^verbatim>\<open>lua_tostring\<close> gives a number in decimal.
\<close>

datatype lua_value =
    LuaNil
  | LuaBoolean bool
  | LuaNumber int
  | LuaString "byte list"
  | LuaTable "(int \<times> byte list) list"

definition lua_isstring :: "lua_value list \<Rightarrow> nat \<Rightarrow> bool" where
  "lua_isstring stack idx =
     (if idx = 0 \<or> idx > length stack then False
      else case stack ! (idx - 1) of LuaString _ \<Rightarrow> True | LuaNumber _ \<Rightarrow> True | _ \<Rightarrow> False)"

definition lua_isnumber :: "lua_value list \<Rightarrow> nat \<Rightarrow> bool" where
  "lua_isnumber stack idx =
     (if idx = 0 \<or> idx > length stack then False
      else case stack ! (idx - 1) of LuaNumber _ \<Rightarrow> True | _ \<Rightarrow> False)"

function digits_of :: "nat \<Rightarrow> byte list" where
  "digits_of n = (if n < 10 then [of_nat (0x30 + n)]
                  else digits_of (n div 10) @ [of_nat (0x30 + n mod 10)])"
  by pat_completeness auto
termination
  by (relation "measure id") auto

definition lua_tostring :: "lua_value list \<Rightarrow> nat \<Rightarrow> byte list" where
  "lua_tostring stack idx =
     (case stack ! (idx - 1) of
        LuaString str \<Rightarrow> str
      | LuaNumber n \<Rightarrow> (if n < 0 then 0x2d # digits_of (nat (- n)) else digits_of (nat n))
      | _ \<Rightarrow> [])"

definition lua_rawset :: "int \<Rightarrow> byte list \<Rightarrow> (int \<times> byte list) list \<Rightarrow> (int \<times> byte list) list" where
  "lua_rawset key val tbl = (key, val) # filter (\<lambda>(k, v). k \<noteq> key) tbl"

text \<open>
  What the process environment answers to \<^verbatim>\<open>lua_execute\<close>: whether \<^verbatim>\<open>create_job\<close> gives a
  job object, what \<^verbatim>\<open>CreateProcess\<close> does with a command line (it starts the process, or
  fails with an error code), the bytes that arrive on the stdout pipe, in the bursts in
  which \<^verbatim>\<open>ReadFile\<close> may see them, the allocation granularity, whether the system has
  the memory to commit pages at a given offset of the buffer, and the exit code that
  \<^verbatim>\<open>GetExitCodeProcess\<close> stores (none when that call fails, as it does once the thread
  that guards the job has closed the process handle).
\<close>

datatype launch = Launched | LaunchFailed dword

record exec_env =
  job_created :: bool
  CreateProcess :: "byte list \<Rightarrow> launch"
  stdout_bursts :: "byte list list"
  dwAllocationGranularity :: nat
  commit_ok :: "nat \<Rightarrow> bool"
  exit_code :: "dword option"

definition ERROR_FILE_NOT_FOUND :: dword where "ERROR_FILE_NOT_FOUND = 2"

text \<open>
  \<^verbatim>\<open>static const unsigned int RESERVE = 4 * 1024 * 1024\<close>, the size of the address range
  reserved for the output. \<^verbatim>\<open>VirtualAlloc(write, page_size, MEM_COMMIT, ...)\<close> at an offset
  of that range succeeds when the pages asked for lie inside the range and the system
  has the memory.
\<close>

definition RESERVE :: nat where "RESERVE = 4 * 1024 * 1024"

definition VirtualAlloc_commit :: "exec_env \<Rightarrow> nat \<Rightarrow> bool" where
  "VirtualAlloc_commit env off =
     (off + dwAllocationGranularity env \<le> RESERVE \<and> commit_ok env off)"

text \<open>
  \<^verbatim>\<open>ReadFile\<close> on the pipe, asked for at most \<open>n\<close> bytes: the bytes read and the pipe
  afterwards, or \<open>None\<close> when the child has closed the pipe and nothing is left.
\<close>

definition ReadFile :: "byte list list \<Rightarrow> nat \<Rightarrow> (byte list \<times> byte list list) option" where
  "ReadFile pipe n =
     (case pipe of
        [] \<Rightarrow> None
      | burst # rest \<Rightarrow>
          Some (take n burst, if length burst \<le> n then rest else drop n burst # rest))"

text \<open>
  The loop that collects the output. \<open>data\<close> is what lies between \<^verbatim>\<open>buffer\<close> and
  \<^verbatim>\<open>write\<close>. With an allocation granularity below 2 the loop asks for no byte at a time
  and makes no progress; \<open>lua_execute\<close> below calls this function with a granularity of
  at least 2 only, and the first test is there to make the function total.
\<close>

function collect_output :: "nat \<Rightarrow> (nat \<Rightarrow> bool) \<Rightarrow> byte list list \<Rightarrow> byte list \<Rightarrow> nat \<Rightarrow> byte list" where
  "collect_output page_size commit pipe data remaining =
     (if page_size < 2 then data
      else if remaining \<le> 1 \<and> \<not> commit (length data) then data
      else
        let remaining = (if remaining \<le> 1 then page_size else remaining) in
        case ReadFile pipe (remaining - 1) of
          None \<Rightarrow> data
        | Some (chunk, pipe') \<Rightarrow>
            collect_output page_size commit pipe' (data @ chunk) (remaining - length chunk))"
  by pat_completeness auto
termination
  by (relation "measure (\<lambda>(page_size, commit, pipe, data, remaining).
        sum_list (map length pipe) + length pipe)")
     (auto simp: ReadFile_def split: list.splits if_splits)

definition is_eol :: "byte \<Rightarrow> bool" where
  "is_eol b = (b = 0x0d \<or> b = 0x0a)"

text \<open>
  A C string in the buffer is the list of the bytes from its pointer to the end of the
  collected data; the committed memory after the data is zero. \<open>c_at\<close> is \<^verbatim>\<open>*p\<close>;
  \<open>c_string\<close> is what \<^verbatim>\<open>lua_pushstring\<close> copies.
\<close>

definition c_at :: "byte list \<Rightarrow> byte" where
  "c_at str = (case str of [] \<Rightarrow> 0 | b # _ \<Rightarrow> b)"

definition c_string :: "byte list \<Rightarrow> byte list" where
  "c_string str = takeWhile (\<lambda>b. b \<noteq> 0) str"

text \<open>\<^verbatim>\<open>strpbrk(str, "\r\n")\<close>: the offset of the first CR or LF of the string.\<close>

fun strpbrk_eol :: "byte list \<Rightarrow> nat option" where
  "strpbrk_eol [] = None"
| "strpbrk_eol (b # bs) =
     (if b = 0 then None
      else if is_eol b then Some 0
      else map_option Suc (strpbrk_eol bs))"

text \<open>
  \<^verbatim>\<open>next_line\<close>: the string with the line ends found zeroed, and the pointer returned
  (\<open>None\<close> for \<^verbatim>\<open>nullptr\<close>). The do-while zeroes the byte found and every CR or LF that
  follows it.
\<close>

definition next_line :: "byte list \<Rightarrow> byte list \<times> byte list option" where
  "next_line str =
     (case strpbrk_eol str of
        Some k \<Rightarrow>
          let n = Suc (length (takeWhile is_eol (drop (Suc k) str)));
              eol = drop (k + n) str
          in (take k str @ replicate n 0 @ eol, if c_at eol \<noteq> 0 then Some eol else None)
      | None \<Rightarrow> (str, None))"

text \<open>The do-while that stores the lines in the table under the keys 1, 2, ...\<close>

function extract_lines :: "int \<Rightarrow> byte list \<Rightarrow> (int \<times> byte list) list \<Rightarrow> (int \<times> byte list) list" where
  "extract_lines line_count line tbl =
     (let (line', next) = next_line line;
          line_count = line_count + 1;
          tbl = lua_rawset line_count (c_string line') tbl
      in case next of
           None \<Rightarrow> tbl
         | Some nxt \<Rightarrow> extract_lines line_count nxt tbl)"
  by pat_completeness auto
termination
proof (relation "measure (\<lambda>(line_count, line, tbl). length line)")
  show "wf (measure (\<lambda>(line_count, line, tbl). length line))" by simp
next
  fix line_count :: int and line x line' ptr line_count' tbl' nxt and tbl :: "(int \<times> byte list) list"
  assume nl: "x = next_line line" "(line', ptr) = x" and nx: "ptr = Some nxt"
  obtain m where m: "nxt = drop (Suc m) line" "c_at (drop (Suc m) line) \<noteq> 0"
    using nl nx by (auto simp: next_line_def Let_def split: option.splits if_splits)
  have "drop (Suc m) line \<noteq> []" using m(2) by (auto simp: c_at_def)
  then have "Suc m < length line" by simp
  then show "((line_count', nxt, tbl'), (line_count, line, tbl))
      \<in> measure (\<lambda>(line_count, line, tbl). length line)"
    using m(1) by simp
qed

text \<open>
  The two attempts of \<^verbatim>\<open>lua_execute\<close> to start the process: the command line as given
  and, when that fails with \<^verbatim>\<open>ERROR_FILE_NOT_FOUND\<close>, the command line handed to
  \<^verbatim>\<open>cmd.exe /c\<close>. (The second command line is built in a \<^verbatim>\<open>str<MAX_PATH>\<close>, whose class
  is not among the sources; the model joins the two strings.)
\<close>

definition launch_process :: "exec_env \<Rightarrow> byte list \<Rightarrow> bool" where
  "launch_process env cmd =
     (case CreateProcess env cmd of
        Launched \<Rightarrow> True
      | LaunchFailed err \<Rightarrow>
          if err = ERROR_FILE_NOT_FOUND
          then CreateProcess env (map of_char ''cmd.exe /c '' @ cmd) = Launched
          else False)"

text \<open>
  \<^verbatim>\<open>lua_execute\<close>. The result is the list of the values returned to Lua. \<open>None\<close> stands
  for a call that returns nothing to Lua at all: with an allocation granularity below 2
  the loop that collects the output makes no progress, and when the first page of the
  buffer cannot be committed \<^verbatim>\<open>next_line\<close> reads memory that is not there. The job's
  lifetime thread and the handles have no part in the result.
\<close>

definition lua_execute :: "exec_env \<Rightarrow> lua_value list \<Rightarrow> lua_value list option" where
  "lua_execute env stack =
     (let arg_count = length stack in
      if arg_count = 0 \<or> \<not> lua_isstring stack 1 then Some []
      else
        let cmd = lua_tostring stack 1 in
        if \<not> job_created env then Some []
        else if \<not> launch_process env cmd then Some []
        else if dwAllocationGranularity env < 2 \<or> \<not> VirtualAlloc_commit env 0 then None
        else
          let data = collect_output (dwAllocationGranularity env) (VirtualAlloc_commit env)
                       (stdout_bursts env) [] 0;
              tbl = extract_lines 0 data [];
              proc_ret = (case exit_code env of None \<Rightarrow> - 1 | Some c \<Rightarrow> c)
          in Some [LuaTable tbl, LuaNumber (uint proc_ret)])"

text \<open>
  What the two loops leave in the table, said of the collected bytes as a whole: the
  bytes up to the first zero byte, cut at every CR and LF; of the pieces, the first and
  every later one that is not empty.
\<close>

fun split_eol :: "byte list \<Rightarrow> byte list list" where
  "split_eol [] = [[]]"
| "split_eol (b # bs) =
     (if is_eol b then [] # split_eol bs
      else (case split_eol bs of [] \<Rightarrow> [[b]] | l # ls \<Rightarrow> (b # l) # ls))"

definition output_lines :: "byte list \<Rightarrow> byte list list" where
  "output_lines out =
     (case split_eol (c_string out) of
        [] \<Rightarrow> []
      | first # rest \<Rightarrow> first # filter (\<lambda>l. l \<noteq> []) rest)"

text \<open>
  The successive lines of a text as the claim words them, cut at CR, LF and CR LF: a
  line runs up to the next line end, a CR LF pair is one line end, and a line end that
  closes the text opens no further line. (Read with every CR and every LF a line end of
  its own, a text with CR LF has an empty line more.)
\<close>

function text_lines :: "byte list \<Rightarrow> byte list list" where
  "text_lines out =
     (case dropWhile (\<lambda>b. \<not> is_eol b) out of
        [] \<Rightarrow> [out]
      | e # rest \<Rightarrow>
          let rest' = (if e = 0x0d \<and> take 1 rest = [0x0a] then tl rest else rest)
          in if rest' = [] then [takeWhile (\<lambda>b. \<not> is_eol b) out]
             else takeWhile (\<lambda>b. \<not> is_eol b) out # text_lines rest')"
  by pat_completeness auto
termination
proof (relation "measure length")
  show "wf (measure length)" by simp
next
  fix out :: "byte list" and e rest rest'
  assume d: "dropWhile (\<lambda>b. \<not> is_eol b) out = e # rest"
    and r: "rest' = (if e = 0x0d \<and> take 1 rest = [0x0a] then tl rest else rest)"
  have "length (e # rest) \<le> length out"
    unfolding d[symmetric] by (rule length_dropWhile_le)
  moreover have "length rest' \<le> length rest" by (simp add: r)
  ultimately show "(rest', out) \<in> measure length" by simp
qed

text \<open>The lines under the keys that follow \<open>c\<close>: the first under \<open>c + 1\<close>, the next under \<open>c + 2\<close>.\<close>

fun numbered :: "int \<Rightarrow> byte list list \<Rightarrow> (int \<times> byte list) list" where
  "numbered c [] = []"
| "numbered c (l # ls) = (c + 1, l) # numbered (c + 1) ls"

text \<open>
  An environment in which only \<^verbatim>\<open>cmd.exe\<close> can be started, whose child writes two lines
  and exits with code 0.
\<close>

definition sample_env :: exec_env where
  "sample_env =
     \<lparr>job_created = True,
      CreateProcess = (\<lambda>cmd. if take 11 cmd = map of_char ''cmd.exe /c '' then Launched
                             else LaunchFailed ERROR_FILE_NOT_FOUND),
      stdout_bursts = [map of_char ''one'' @ [0x0d, 0x0a] @ map of_char ''two'', [0x0a]],
      dwAllocationGranularity = 65536, commit_ok = (\<lambda>offset. True), exit_code = Some 0\<rparr>"

section \<open>Sample values\<close>

text \<open>
  A terminal object before \<^verbatim>\<open>begin\<close> with an eight-element ring, a console, the default
  settings, and a transcoder that widens each byte.
\<close>

definition sample_terminal :: win_terminal where
  "sample_terminal =
     \<lparr>m_stdin = None, m_prev_mode_in = 0, m_buffer_head = 0, m_buffer_count = 0,
      m_buffer = replicate 8 0, m_stdout = None, m_default_attr = 0x07, m_attr = 0x07,
      m_prev_mode_out = 0, m_state = idle_state, m_enable_c1 = True,
      g_last_buffer_size = 0, resize_signals = 0\<rparr>"

definition sample_console :: console where
  "sample_console =
     \<lparr>input_mode = 0x1f7, output_mode = 0x3, wAttributes = 0x4007, dwSize_X = 80,
      srWindow_Top = 0, srWindow_Bottom = 24, input_queue = [], written = [], modules = {}\<rparr>"

definition default_settings :: settings where
  "default_settings = \<lparr>g_altgr = True, g_ansi = True\<rparr>"

definition widen :: to_utf16_fn where
  "widen n chars = (map ucast (take (n - 1) chars), length (take (n - 1) chars))"

definition key_down :: "wchar \<Rightarrow> 16 word \<Rightarrow> 16 word \<Rightarrow> dword \<Rightarrow> key_event_record" where
  "key_down c vk sc flags =
     \<lparr>bKeyDown = True, UnicodeChar = c, wVirtualKeyCode = vk, wVirtualScanCode = sc,
      dwControlKeyState = flags\<rparr>"

text \<open>
  The ring after \<open>n\<close> more calls of \<^verbatim>\<open>pop\<close>.
\<close>

fun after_pops :: "nat \<Rightarrow> nat \<Rightarrow> win_terminal \<Rightarrow> win_terminal" where
  "after_pops cap 0 t = t"
| "after_pops cap (Suc n) t = after_pops cap n (snd (pop cap t))"

text \<open>
  The bytes a caller reads when the UTF-16 units \<open>us\<close> are typed, one key-down event
  each with no modifier held: an event is handled by \<open>encode_key\<close>, the caller then
  pops what the ring holds, and the next event is handled on the ring so emptied
  (\<^verbatim>\<open>select\<close> polls the console on an empty ring only). A character outside the basic
  plane is typed as two such events, its high and its low surrogate.
\<close>

fun type_units :: "to_utf8_fn \<Rightarrow> wchar list \<Rightarrow> win_terminal \<Rightarrow> byte list" where
  "type_units enc [] t = []"
| "type_units enc (u # us) t =
     (case encode_key enc default_settings 8 (key_down u 0 0 0) t of
        None \<Rightarrow> type_units enc us t
      | Some t' \<Rightarrow>
          pops 8 (m_buffer_count t') t'
          @ type_units enc us (after_pops 8 (m_buffer_count t') t'))"

definition typed :: "to_utf8_fn \<Rightarrow> wchar list \<Rightarrow> byte list" where
  "typed enc us = type_units enc us sample_terminal"
section \<open>Properties of the ring buffer\<close>

declare out_write.simps [simp del]
declare read_console.simps [simp del]

lemma and_pow2_minus1: "(x::nat) AND (2 ^ k - Suc 0) = x mod 2 ^ k"
proof -
  have "(2::nat) ^ k - Suc 0 = mask k" by (simp add: mask_eq_exp_minus_1)
  then show ?thesis by (simp only: take_bit_eq_mask[symmetric] take_bit_eq_mod)
qed

lemma mask_of_pow2: "k \<le> 8 \<Longrightarrow> mask_of (2 ^ k) = 2 ^ k - Suc 0"
proof -
  assume "k \<le> 8"
  then have "(2::nat) ^ k \<le> 2 ^ 8" by (rule power_increasing) simp
  then show ?thesis by (simp add: mask_of_def)
qed

lemma and_mask_of: "k \<le> 8 \<Longrightarrow> x AND mask_of (2 ^ k) = x mod 2 ^ k"
  by (simp add: mask_of_pow2 and_pow2_minus1)

lemma pops_map:
  "m_buffer_head t < 2 ^ k \<Longrightarrow> n \<le> m_buffer_count t \<Longrightarrow>
   pops (2 ^ k) n t = map (\<lambda>j. m_buffer t ! ((m_buffer_head t + j) mod 2 ^ k)) [0..<n]"
proof (induction n arbitrary: t)
  case 0
  then show ?case by simp
next
  case (Suc n)
  let ?t' = "t\<lparr>m_buffer_count := m_buffer_count t - 1,
               m_buffer_head := (m_buffer_head t + 1) mod 2 ^ k\<rparr>"
  have p: "pop (2 ^ k) t = (m_buffer t ! m_buffer_head t, ?t')"
    using Suc.prems by (simp add: pop_def and_pow2_minus1)
  have "pops (2 ^ k) n ?t' = map (\<lambda>j. m_buffer ?t' ! ((m_buffer_head ?t' + j) mod 2 ^ k)) [0..<n]"
    using Suc.prems by (intro Suc.IH) auto
  then have "pops (2 ^ k) n ?t' = map (\<lambda>j. m_buffer t ! ((m_buffer_head t + Suc j) mod 2 ^ k)) [0..<n]"
    by (simp add: mod_simps)
  then show ?case
    using Suc.prems p by (simp add: upt_rec[of 0 "Suc n"] map_Suc_upt[symmetric] del: upt_Suc)
qed

lemma mod_shift_neq:
  fixes h :: nat
  assumes "j < j'" "j' - j < c"
  shows "(h + j) mod c \<noteq> (h + j') mod c"
proof
  assume eq: "(h + j) mod c = (h + j') mod c"
  have "h + j \<le> h + j'" using assms by simp
  then have "c dvd (h + j') - (h + j)"
    using eq mod_eq_dvd_iff_nat[of "h + j" "h + j'" c] by simp
  then have "c dvd j' - j" by simp
  moreover have "0 < j' - j" using assms by simp
  ultimately show False using assms(2) nat_dvd_not_less by blast
qed

lemma store_bytes_length [simp]: "length (store_bytes msk i bs buf) = length buf"
  by (induction bs arbitrary: i buf) simp_all

lemma store_bytes_other:
  "(\<forall>j<length bs. (i + j) mod 2 ^ k \<noteq> p) \<Longrightarrow>
   store_bytes (2 ^ k - Suc 0) i bs buf ! p = buf ! p"
proof (induction bs arbitrary: i buf)
  case Nil
  then show ?case by simp
next
  case (Cons b bs)
  have "\<forall>j<length bs. (Suc i + j) mod 2 ^ k \<noteq> p"
    using Cons.prems by auto
  then have "store_bytes (2 ^ k - Suc 0) (Suc i) bs (buf[i mod 2 ^ k := b]) ! p
        = buf[i mod 2 ^ k := b] ! p"
    using Cons.IH[of "Suc i"] by simp
  moreover have "i mod 2 ^ k \<noteq> p" using Cons.prems by force
  ultimately show ?case by (simp add: and_pow2_minus1)
qed

lemma store_bytes_written:
  "j < length bs \<Longrightarrow> length bs \<le> 2 ^ k \<Longrightarrow> length buf = 2 ^ k \<Longrightarrow>
   store_bytes (2 ^ k - Suc 0) i bs buf ! ((i + j) mod 2 ^ k) = bs ! j"
proof (induction bs arbitrary: i buf j)
  case Nil
  then show ?case by simp
next
  case (Cons b bs)
  show ?case
  proof (cases j)
    case 0
    have "\<forall>j'<length bs. (Suc i + j') mod 2 ^ k \<noteq> i mod 2 ^ k"
    proof (intro allI impI)
      fix j' assume "j' < length bs"
      then have "Suc j' - 0 < 2 ^ k" using Cons.prems by simp
      then show "(Suc i + j') mod 2 ^ k \<noteq> i mod 2 ^ k"
        using mod_shift_neq[of 0 "Suc j'" "2 ^ k" i] by simp
    qed
    then have "store_bytes (2 ^ k - Suc 0) (Suc i) bs (buf[i mod 2 ^ k := b]) ! (i mod 2 ^ k)
        = buf[i mod 2 ^ k := b] ! (i mod 2 ^ k)"
      by (rule store_bytes_other)
    then show ?thesis using 0 Cons.prems by (simp add: and_pow2_minus1)
  next
    case (Suc j')
    then have "store_bytes (2 ^ k - Suc 0) (Suc i) bs (buf[i mod 2 ^ k := b]) ! ((Suc i + j') mod 2 ^ k)
        = bs ! j'"
      using Cons.prems by (intro Cons.IH) auto
    then show ?thesis using Suc by (simp add: and_pow2_minus1)
  qed
qed

lemma store_fifo:
  assumes ok: "ring_ok k t" and room: "m_buffer_count t + length bs \<le> 2 ^ k"
  defines "t' \<equiv> t\<lparr>m_buffer := store_bytes (2 ^ k - Suc 0) (m_buffer_head t + m_buffer_count t)
                                    bs (m_buffer t),
                   m_buffer_count := m_buffer_count t + length bs\<rparr>"
  shows "pops (2 ^ k) (m_buffer_count t + length bs) t' = pops (2 ^ k) (m_buffer_count t) t @ bs"
proof -
  let ?h = "m_buffer_head t" and ?n = "m_buffer_count t"
  let ?buf = "store_bytes (2 ^ k - Suc 0) (?h + ?n) bs (m_buffer t)"
  have len: "length (m_buffer t) = 2 ^ k" and h: "?h < 2 ^ k"
    using ok by (auto simp: ring_ok_def)
  have old: "?buf ! ((?h + j) mod 2 ^ k) = m_buffer t ! ((?h + j) mod 2 ^ k)" if "j < ?n" for j
  proof (rule store_bytes_other, intro allI impI)
    fix i assume "i < length bs"
    then have "(?h + j) mod 2 ^ k \<noteq> (?h + (?n + i)) mod 2 ^ k"
      using room that by (intro mod_shift_neq) auto
    then show "(?h + ?n + i) mod 2 ^ k \<noteq> (?h + j) mod 2 ^ k"
      by (simp add: add.assoc)
  qed
  have new: "?buf ! ((?h + ?n + i) mod 2 ^ k) = bs ! i" if "i < length bs" for i
    using that room len by (intro store_bytes_written) auto
  have "pops (2 ^ k) (?n + length bs) t'
      = map (\<lambda>j. ?buf ! ((?h + j) mod 2 ^ k)) [0..<?n + length bs]"
    using h by (subst pops_map) (simp_all add: t'_def)
  also have "\<dots> = map (\<lambda>j. ?buf ! ((?h + j) mod 2 ^ k)) [0..<?n]
                  @ map (\<lambda>i. ?buf ! ((?h + ?n + i) mod 2 ^ k)) [0..<length bs]"
    by (rule nth_equalityI) (auto simp: nth_append add.assoc)
  also have "map (\<lambda>j. ?buf ! ((?h + j) mod 2 ^ k)) [0..<?n] = pops (2 ^ k) ?n t"
    using h old by (subst pops_map) simp_all
  also have "map (\<lambda>i. ?buf ! ((?h + ?n + i) mod 2 ^ k)) [0..<length bs] = bs"
    using new by (intro nth_equalityI) auto
  finally show ?thesis .
qed

lemma push_ascii_eq:
  assumes "k \<le> 8" "m_buffer_count t < 2 ^ k" "v < 0x80"
  shows "push enc (2 ^ k) v t =
    t\<lparr>m_buffer := store_bytes (2 ^ k - Suc 0) (m_buffer_head t + m_buffer_count t)
                     [ucast v] (m_buffer t),
      m_buffer_count := m_buffer_count t + length [ucast v :: byte]\<rparr>"
  using assms by (simp add: push_def mask_of_pow2 Let_def)

lemma push_wide_eq:
  assumes "k \<le> 8" "\<not> v < 0x80" "m_buffer_count t + length (enc [ucast v, 0]) < 2 ^ k"
  shows "push enc (2 ^ k) v t =
    t\<lparr>m_buffer := store_bytes (2 ^ k - Suc 0) (m_buffer_head t + m_buffer_count t)
                     (enc [ucast v, 0]) (m_buffer t),
      m_buffer_count := m_buffer_count t + length (enc [ucast v, 0])\<rparr>"
  using assms by (simp add: push_def mask_of_pow2 Let_def)

lemma push_fifo:
  assumes ok: "ring_ok k t" and room: "has_room enc (2 ^ k) v t"
  shows "ring_ok k (push enc (2 ^ k) v t)"
    and "m_buffer_count (push enc (2 ^ k) v t) = m_buffer_count t + length (pushed_bytes enc v)"
    and "pops (2 ^ k) (m_buffer_count t + length (pushed_bytes enc v)) (push enc (2 ^ k) v t)
           = pops (2 ^ k) (m_buffer_count t) t @ pushed_bytes enc v"
proof -
  have k: "k \<le> 8" using ok by (simp add: ring_ok_def)
  show "ring_ok k (push enc (2 ^ k) v t)"
  proof (cases "v < 0x80")
    case True
    then show ?thesis using ok room k
      by (simp add: push_ascii_eq has_room_def ring_ok_def)
  next
    case False
    then show ?thesis using ok room k
      by (simp add: push_wide_eq has_room_def pushed_bytes_def ring_ok_def)
  qed
  show "m_buffer_count (push enc (2 ^ k) v t) = m_buffer_count t + length (pushed_bytes enc v)"
  proof (cases "v < 0x80")
    case True
    then show ?thesis using room k
      by (simp add: push_ascii_eq has_room_def pushed_bytes_def)
  next
    case False
    then show ?thesis using room k
      by (simp add: push_wide_eq has_room_def pushed_bytes_def)
  qed
  show "pops (2 ^ k) (m_buffer_count t + length (pushed_bytes enc v)) (push enc (2 ^ k) v t)
           = pops (2 ^ k) (m_buffer_count t) t @ pushed_bytes enc v"
  proof (cases "v < 0x80")
    case True
    then have "m_buffer_count t + length [ucast v :: byte] \<le> 2 ^ k"
      using room by (simp add: has_room_def)
    moreover have "m_buffer_count t < 2 ^ k" using True room by (simp add: has_room_def)
    ultimately show ?thesis
      using store_fifo[OF ok, of "[ucast v]"] True
      by (simp only: push_ascii_eq[where enc=enc, OF k _ True] pushed_bytes_def if_True)
  next
    case False
    then have r: "m_buffer_count t + length (enc [ucast v, 0 :: wchar]) < 2 ^ k"
      using room by (simp add: has_room_def pushed_bytes_def)
    then have "m_buffer_count t + length (enc [ucast v, 0 :: wchar]) \<le> 2 ^ k" by simp
    from store_fifo[OF ok this] False show ?thesis
      by (simp only: push_wide_eq[where enc=enc, OF k False r] pushed_bytes_def if_False)
  qed
qed

section \<open>Properties of the decoder and of write\<close>

lemma scan_steps_append:
  "scan_steps st run (a @ b) =
     (let (cs, st', run') = scan_steps st run a;
          (rest, st'', run'') = scan_steps st' run' b
      in (cs @ rest, st'', run''))"
  by (induction a arbitrary: st run) (simp_all add: Let_def split: prod.splits)

lemma scan_idle_run:
  "scan_idle run b = (cs, st', run') \<Longrightarrow> kind st' \<noteq> Idle \<Longrightarrow> run' = []"
  by (auto simp: scan_idle_def idle_state_def split: if_splits)

lemma scan_byte_run:
  "scan_byte st run b = (cs, st', run') \<Longrightarrow> kind st' \<noteq> Idle \<Longrightarrow> run' = []"
  by (cases "kind st")
     (auto simp: scan_byte_def idle_state_def Let_def split: if_splits prod.splits
           dest: scan_idle_run)

lemma scan_steps_run:
  "scan_steps st run bs = (cs, st', run') \<Longrightarrow> (kind st \<noteq> Idle \<longrightarrow> run = []) \<Longrightarrow>
   kind st' \<noteq> Idle \<Longrightarrow> run' = []"
proof (induction bs arbitrary: st run cs)
  case Nil
  then show ?case by simp
next
  case (Cons b bs)
  obtain c1 st1 run1 where b: "scan_byte st run b = (c1, st1, run1)"
    by (cases "scan_byte st run b") auto
  obtain c2 where r: "scan_steps st1 run1 bs = (c2, st', run')"
    using Cons.prems(1) b by (auto simp: Let_def split: prod.splits)
  have "kind st1 \<noteq> Idle \<longrightarrow> run1 = []" using scan_byte_run[OF b] by blast
  from Cons.IH[OF r this Cons.prems(3)] show ?case .
qed

lemma ecma48_iter_append:
  assumes "kind (snd (ecma48_iter a st)) \<noteq> Idle"
  shows "ecma48_iter (a @ b) st =
     (fst (ecma48_iter a st) @ fst (ecma48_iter b (snd (ecma48_iter a st))),
      snd (ecma48_iter b (snd (ecma48_iter a st))))"
proof -
  obtain c1 st1 run1 where a: "scan_steps st [] a = (c1, st1, run1)"
    by (cases "scan_steps st [] a") auto
  have k: "kind st1 \<noteq> Idle" using assms a by (simp add: ecma48_iter_def)
  have "run1 = []" using scan_steps_run[OF a _ k] by simp
  then show ?thesis using a
    by (simp add: ecma48_iter_def scan_steps_append flush_run_def Let_def split: prod.splits)
qed


lemma out_write_wide_state:
  "out_write_wide w (apfst (\<lambda>t. t\<lparr>m_state := x\<rparr>) s)
     = apfst (\<lambda>t. t\<lparr>m_state := x\<rparr>) (out_write_wide w s)"
  by (cases s) (simp add: out_write_wide_def)

lemma out_write_state:
  "out_write tu chars (apfst (\<lambda>t. t\<lparr>m_state := x\<rparr>) s)
     = map_option (apfst (\<lambda>t. t\<lparr>m_state := x\<rparr>)) (out_write tu chars s)"
proof (induction tu chars s rule: out_write.induct)
  case (1 tu chars s)
  show ?case
  proof (cases "length chars > 0")
    case False
    then show ?thesis by (subst (1 2) out_write.simps) simp
  next
    case True
    obtain wbuf used where tu: "tu (min 256 (length chars + 1)) chars = (wbuf, used)"
      by (cases "tu (min 256 (length chars + 1)) chars") auto
    show ?thesis
    proof (cases "used = 0")
      case True
      then show ?thesis using \<open>length chars > 0\<close> tu
        by (subst (1 2) out_write.simps) (simp add: Let_def)
    next
      case False
      have "out_write tu (drop used chars) (apfst (\<lambda>t. t\<lparr>m_state := x\<rparr>) (out_write_wide wbuf s))
          = map_option (apfst (\<lambda>t. t\<lparr>m_state := x\<rparr>)) (out_write tu (drop used chars) (out_write_wide wbuf s))"
        using "1.IH"[OF True refl refl tu[symmetric] False] by simp
      then show ?thesis using True tu False
        by (subst (1 2) out_write.simps) (simp add: Let_def out_write_wide_state)
    qed
  qed
qed

lemma write_sgr_state:
  "write_sgr ps (apfst (\<lambda>t. t\<lparr>m_state := x\<rparr>) s)
     = apfst (\<lambda>t. t\<lparr>m_state := x\<rparr>) (write_sgr ps s)"
  by (cases s) (simp add: write_sgr_def set_attr_def get_attr_def get_default_attr_def)

lemma write_code_state:
  "write_code tu code (apfst (\<lambda>t. t\<lparr>m_state := x\<rparr>) s)
     = map_option (apfst (\<lambda>t. t\<lparr>m_state := x\<rparr>)) (write_code tu code s)"
proof (cases "get_type code")
  case type_chars
  then show ?thesis by (simp add: write_code_def out_write_state)
next
  case type_c0
  then show ?thesis by (simp add: write_code_def write_c0_def out_write_wide_state)
next
  case type_c1
  obtain t h where s: "s = (t, h)" by (cases s)
  have "write_c1 tu code (apfst (\<lambda>t. t\<lparr>m_state := x\<rparr>) s)
     = map_option (apfst (\<lambda>t. t\<lparr>m_state := x\<rparr>)) (write_c1 tu code s)"
    using out_write_state[of tu "get_chars code" x s] write_sgr_state[of _ x s]
    by (simp add: write_c1_def s split: prod.splits)
  then show ?thesis using type_c1 by (simp add: write_code_def)
qed

lemma write_codes_state:
  "write_codes tu codes (apfst (\<lambda>t. t\<lparr>m_state := x\<rparr>) s)
     = map_option (apfst (\<lambda>t. t\<lparr>m_state := x\<rparr>)) (write_codes tu codes s)"
proof (induction codes arbitrary: s)
  case Nil
  then show ?case by simp
next
  case (Cons code codes)
  then show ?case by (cases "write_code tu code s") (simp_all add: write_code_state)
qed

lemma write_codes_append:
  "write_codes tu (c1 @ c2) s =
     (case write_codes tu c1 s of None \<Rightarrow> None | Some s' \<Rightarrow> write_codes tu c2 s')"
  by (induction c1 arbitrary: s) (simp_all split: option.splits)

lemma terminal_write_eq:
  "terminal_write tu chars (t, h) =
     map_option (apfst (\<lambda>u. u\<lparr>m_state := snd (ecma48_iter chars (m_state t))\<rparr>))
       (write_codes tu (fst (ecma48_iter chars (m_state t))) (t, h))"
proof (cases "ecma48_iter chars (m_state t)")
  case (Pair codes st)
  then show ?thesis
    using write_codes_state[of tu codes st "(t, h)"] by (simp add: terminal_write_def)
qed

lemma write_codes_keeps_state:
  assumes "write_codes tu codes (t, h) = Some (t', h')"
  shows "m_state t' = m_state t"
proof -
  have "write_codes tu codes (apfst (\<lambda>u. u\<lparr>m_state := m_state t\<rparr>) (t, h))
      = map_option (apfst (\<lambda>u. u\<lparr>m_state := m_state t\<rparr>)) (write_codes tu codes (t, h))"
    by (rule write_codes_state)
  then have "t' = t'\<lparr>m_state := m_state t\<rparr>" using assms by simp
  then have "m_state t' = m_state (t'\<lparr>m_state := m_state t\<rparr>)" by simp
  then show ?thesis by simp
qed

lemma write_twice_eq:
  assumes mid: "kind (snd (ecma48_iter a (m_state t))) \<noteq> Idle"
  shows "write_twice tu a b (t, h) = terminal_write tu (a @ b) (t, h)"
proof -
  let ?st1 = "snd (ecma48_iter a (m_state t))"
  let ?c1 = "fst (ecma48_iter a (m_state t))"
  let ?c2 = "fst (ecma48_iter b ?st1)"
  let ?st2 = "snd (ecma48_iter b ?st1)"
  have ab: "ecma48_iter (a @ b) (m_state t) = (?c1 @ ?c2, ?st2)"
    by (rule ecma48_iter_append[OF mid])
  show ?thesis
  proof (cases "write_codes tu ?c1 (t, h)")
    case None
    then show ?thesis
      by (simp add: write_twice_def terminal_write_eq ab write_codes_append)
  next
    case (Some s1)
    obtain t1 h1 where s1: "s1 = (t1, h1)" by (cases s1)
    have "terminal_write tu b (t1\<lparr>m_state := ?st1\<rparr>, h1)
        = map_option (apfst (\<lambda>u. u\<lparr>m_state := ?st2\<rparr>)) (write_codes tu ?c2 (t1, h1))"
      using write_codes_state[of tu ?c2 ?st1 "(t1, h1)"]
      by (simp add: terminal_write_eq option.map_comp comp_def apfst_def map_prod_def split_def)
    then show ?thesis using Some s1
      by (simp add: write_twice_def terminal_write_eq ab write_codes_append)
  qed
qed

lemma scan_idle_state_run: "fst (snd (scan_idle run b)) = fst (snd (scan_idle run' b))"
  by (simp add: scan_idle_def)

lemma scan_byte_state_run: "fst (snd (scan_byte st run b)) = fst (snd (scan_byte st run' b))"
  by (cases "kind st") (simp_all add: scan_byte_def scan_idle_state_run[of run b run'] split: prod.splits)

lemma scan_steps_state_run:
  "fst (snd (scan_steps st run bs)) = fst (snd (scan_steps st run' bs))"
proof (induction bs arbitrary: st run run')
  case Nil
  then show ?case by simp
next
  case (Cons b bs)
  have "fst (snd (scan_steps (fst (snd (scan_byte st run b))) (snd (snd (scan_byte st run b))) bs))
      = fst (snd (scan_steps (fst (snd (scan_byte st run' b))) (snd (snd (scan_byte st run' b))) bs))"
    using Cons.IH scan_byte_state_run[of st run b run'] by simp
  then show ?case by (simp add: Let_def split_beta)
qed

lemma iter_state: "snd (ecma48_iter chars st) = fst (snd (scan_steps st [] chars))"
  by (simp add: ecma48_iter_def split_beta)

lemma iter_state_append:
  "snd (ecma48_iter (a @ b) st) = snd (ecma48_iter b (snd (ecma48_iter a st)))"
  using scan_steps_state_run[of "fst (snd (scan_steps st [] a))" "snd (snd (scan_steps st [] a))" b "[]"]
  by (simp add: iter_state scan_steps_append Let_def split_beta)

lemma iter_state_Cons:
  "snd (ecma48_iter (b # bs) st) = snd (ecma48_iter bs (fst (snd (scan_byte st [] b))))"
  using iter_state_append[of "[b]" bs st] by (simp add: iter_state Let_def split_beta)

lemma iter_state_Nil: "snd (ecma48_iter [] st) = st"
  by (simp add: iter_state)

lemma esc_state:
  "kind st \<noteq> InCsi \<Longrightarrow> fst (snd (scan_byte st [] 0x1b)) = \<lparr>kind = GotEsc, pending = [0x1b]\<rparr>"
  by (cases "kind st") (simp_all add: scan_byte_def scan_idle_def)

lemma bracket_state:
  "kind (fst (snd (scan_byte \<lparr>kind = GotEsc, pending = p\<rparr> [] 0x5b))) = InCsi"
  by (simp add: scan_byte_def)

lemma params_state:
  "\<forall>p\<in>set ps. is_param_byte p \<Longrightarrow> kind st = InCsi \<Longrightarrow> kind (snd (ecma48_iter ps st)) = InCsi"
proof (induction ps arbitrary: st)
  case Nil
  then show ?case by (simp add: iter_state_Nil)
next
  case (Cons p ps)
  have "kind (fst (snd (scan_byte st [] p))) = InCsi"
    using Cons.prems by (simp add: scan_byte_def)
  then show ?case using Cons by (simp add: iter_state_Cons)
qed

lemma inside_csi_not_idle:
  assumes pre: "kind st \<noteq> InCsi"
    and ps: "\<forall>p\<in>set ps. is_param_byte p"
    and j: "0 < j" "j < length (0x1b # 0x5b # ps @ [fin])"
  shows "kind (snd (ecma48_iter (take j (0x1b # 0x5b # ps @ [fin])) st)) \<noteq> Idle"
proof (cases "j = 1")
  case True
  then show ?thesis using pre
    by (simp add: iter_state_Cons iter_state_Nil esc_state)
next
  case False
  then obtain m where m: "j = Suc (Suc m)" "m \<le> length ps"
    using j by (cases j; cases "j - 1") auto
  have tk: "take j (0x1b # 0x5b # ps @ [fin]) = 0x1b # 0x5b # take m ps"
    using m by simp
  have "\<forall>p\<in>set (take m ps). is_param_byte p" using ps by (auto dest: in_set_takeD)
  then have "kind (snd (ecma48_iter (take m ps)
      (fst (snd (scan_byte \<lparr>kind = GotEsc, pending = [0x1b]\<rparr> [] 0x5b))))) = InCsi"
    by (intro params_state bracket_state)
  then show ?thesis using pre by (simp add: tk iter_state_Cons esc_state)
qed

text \<open>
  Claim C6. A byte string holds the bytes ESC [, parameter bytes \<open>ps\<close> and a final byte,
  between any \<open>pre\<close> and \<open>post\<close>, and the decoder is not inside a control sequence when it
  reaches the ESC. For every split point \<open>j\<close> inside the sequence, writing the two halves
  with two calls of \<^verbatim>\<open>write\<close> leaves the session and the console exactly as one call with
  the whole string does (the attribute state with them), and the codes of the two halves,
  one list after the other, are the codes of the whole string, with the same parse state
  at the end.
\<close>

theorem csi_split_write:
  assumes "kind (snd (ecma48_iter pre (m_state t))) \<noteq> InCsi"
    and "\<forall>p\<in>set ps. is_param_byte p"
    and "0 < j" and "j < length (0x1b # 0x5b # ps @ [fin])"
  shows "write_twice tu (pre @ take j (0x1b # 0x5b # ps @ [fin]))
             (drop j (0x1b # 0x5b # ps @ [fin]) @ post) (t, h)
           = terminal_write tu (pre @ (0x1b # 0x5b # ps @ [fin]) @ post) (t, h)
       \<and> ecma48_iter (pre @ (0x1b # 0x5b # ps @ [fin]) @ post) (m_state t)
           = (fst (ecma48_iter (pre @ take j (0x1b # 0x5b # ps @ [fin])) (m_state t))
                @ fst (ecma48_iter (drop j (0x1b # 0x5b # ps @ [fin]) @ post)
                        (snd (ecma48_iter (pre @ take j (0x1b # 0x5b # ps @ [fin])) (m_state t)))),
              snd (ecma48_iter (drop j (0x1b # 0x5b # ps @ [fin]) @ post)
                        (snd (ecma48_iter (pre @ take j (0x1b # 0x5b # ps @ [fin])) (m_state t)))))"
proof -
  let ?seq = "0x1b # 0x5b # ps @ [fin]"
  let ?a = "pre @ take j ?seq" and ?b = "drop j ?seq @ post"
  have mid: "kind (snd (ecma48_iter ?a (m_state t))) \<noteq> Idle"
    unfolding iter_state_append by (rule inside_csi_not_idle[OF assms])
  have ab: "?a @ ?b = pre @ ?seq @ post"
    by (metis append_assoc append_take_drop_id)
  show ?thesis
    using write_twice_eq[OF mid, of tu ?b h] ecma48_iter_append[OF mid, of ?b]
    by (simp only: ab)
qed

theorem csi_split_write_witness:
  "write_twice widen [0x41, 0x1b, 0x5b, 0x33] [0x31, 0x6d, 0x42] (sample_terminal, sample_console)
     = terminal_write widen [0x41, 0x1b, 0x5b, 0x33, 0x31, 0x6d, 0x42] (sample_terminal, sample_console)"
proof -
  have 1: "kind (snd (ecma48_iter [0x41] (m_state sample_terminal))) \<noteq> InCsi"
    by code_simp
  have 2: "\<forall>p\<in>set [0x33, 0x31]. is_param_byte p"
    by (simp add: is_param_byte_def)
  from csi_split_write[OF 1 2, of 3 "0x6d" widen "[0x42]" sample_console]
  show ?thesis by simp
qed

section \<open>Properties of the session and the renderer\<close>

lemma low_byte_roundtrip:
  "ucast (ucast (w AND 0xff :: 16 word) :: byte) = (w AND 0xff :: 16 word)"
proof -
  have m: "(0xff :: 16 word) = mask 8" by (simp add: mask_eq_exp_minus_1)
  show ?thesis unfolding m by (rule bit_word_eqI) (auto simp: bit_simps)
qed

text \<open>
  Claim C7, as amended. \<^verbatim>\<open>begin\<close> followed at once by \<^verbatim>\<open>end\<close> leaves the console with its
  input mode and its output mode as they were, and with the low eight bits of its text
  attribute; the bits of the attribute above the low byte are cleared. Nothing else of
  the console changes.
\<close>

theorem begin_end_restores:
  "snd (end_session (begin_session (t, h))) = h\<lparr>wAttributes := wAttributes h AND 0xff\<rparr>"
  by (simp add: end_session_def begin_session_def in_begin_def out_begin_def in_end_def out_end_def
      Let_def GetConsoleMode_def SetConsoleMode_def SetConsoleTextAttribute_def low_byte_roundtrip
      split: prod.splits)

text \<open>
  Claim C7 as stated fails: a console whose attribute is 0x4007 (reverse video on the
  default colours) comes out of \<^verbatim>\<open>begin\<close> and \<^verbatim>\<open>end\<close> with another attribute.
\<close>

theorem begin_end_attribute_counterexample:
  "wAttributes (snd (end_session (begin_session (sample_terminal, sample_console))))
     \<noteq> wAttributes sample_console"
  by code_simp

text \<open>
  Claim C3. What the probe computes: interpretation is enabled exactly when no listed
  module is loaded and the setting \<^verbatim>\<open>terminal.ansi\<close> is off. With the default settings
  (the setting on) and no module loaded the probe therefore disables interpretation,
  where the claim and the setting's own description say it is enabled.
\<close>

theorem check_c1_support_enable:
  "m_enable_c1 (fst (check_c1_support cfg (t, h))) = (\<not> find_module dll_names h \<and> \<not> g_ansi cfg)"
  by (simp add: check_c1_support_def)

theorem check_c1_support_enable_witness:
  "g_ansi default_settings \<and> \<not> find_module dll_names sample_console
   \<and> \<not> m_enable_c1 (fst (check_c1_support default_settings (sample_terminal, sample_console)))"
  using check_c1_support_enable[of default_settings sample_terminal sample_console]
  by (simp add: default_settings_def sample_console_def dll_names_def GetModuleHandle_def)

text \<open>
  Claim C4. The parameters 38 and 3 are not ignored: on the attribute 0x07 the first
  gives 0x09 and the second 0x05. The comparison \<^verbatim>\<open>param - 90 < 8\<close> of signed integers
  holds for 38, and \<^verbatim>\<open>param - 30 < 8\<close> holds for 3.
\<close>

theorem write_sgr_38_sets_colour:
  "m_attr sample_terminal = 0x07
   \<and> m_attr (fst (write_sgr [38] (sample_terminal, sample_console))) = 0x09
   \<and> m_attr (fst (write_sgr [3] (sample_terminal, sample_console))) = 0x05"
  by code_simp

text \<open>
  Claim C9. With interpretation enabled, a C1 code that is not a control sequence, and a
  control sequence whose final character is not \<open>m\<close>, leave the session and the console
  as they are: nothing is written and the attribute is not changed.
\<close>

theorem write_c1_discards:
  assumes "m_enable_c1 t" and "get_code code \<noteq> c1_csi \<or> fst (decode_csi code 32) \<noteq> 0x6d"
  shows "write_c1 tu code (t, h) = Some (t, h)"
  using assms by (auto simp: write_c1_def split: prod.splits)

theorem write_c1_discards_witness:
  "m_enable_c1 sample_terminal
   \<and> fst (decode_csi (csi_code [0x1b, 0x5b, 0x32, 0x4a]) 32) \<noteq> 0x6d
   \<and> write_c1 widen (csi_code [0x1b, 0x5b, 0x32, 0x4a]) (sample_terminal, sample_console)
       = Some (sample_terminal, sample_console)
   \<and> write_c1 widen \<lparr>get_type = type_c1, get_code = 0x4d, get_chars = [0x1b, 0x4d]\<rparr>
         (sample_terminal, sample_console)
       = Some (sample_terminal, sample_console)"
proof -
  have e: "m_enable_c1 sample_terminal" by (simp add: sample_terminal_def)
  have f: "fst (decode_csi (csi_code [0x1b, 0x5b, 0x32, 0x4a]) 32) \<noteq> 0x6d"
    by (simp add: decode_csi_def csi_code_def is_param_byte_def)
  have g: "get_code \<lparr>get_type = type_c1, get_code = 0x4d, get_chars = [0x1b, 0x4d]\<rparr> \<noteq> c1_csi"
    by (simp add: c1_csi_def)
  from write_c1_discards[OF e disjI2[OF f], of widen sample_console]
       write_c1_discards[OF e disjI1[OF g], of widen sample_console] e f
  show ?thesis by simp
qed

section \<open>Properties of the input encoder\<close>

lemma enhanced_keeps_ctrl: "(f OR ENHANCED_KEY) AND CTRL_PRESSED = f AND CTRL_PRESSED"
  by (simp add: bit.conj_disj_distrib2 ENHANCED_KEY_def CTRL_PRESSED_def
      LEFT_CTRL_PRESSED_def RIGHT_CTRL_PRESSED_def)

lemma enhanced_keeps_shift: "(f OR ENHANCED_KEY) AND SHIFT_PRESSED = f AND SHIFT_PRESSED"
  by (simp add: bit.conj_disj_distrib2 ENHANCED_KEY_def SHIFT_PRESSED_def)

lemma enhanced_nonzero: "ENHANCED_KEY \<noteq> 0"
  by (simp add: ENHANCED_KEY_def)

lemma push3_fifo:
  assumes ok: "ring_ok k t" and room: "m_buffer_count t + 3 \<le> 2 ^ k"
    and a: "a < 0x80" and b: "b < 0x80" and c: "c < 0x80"
  shows "m_buffer_count (push enc (2 ^ k) c (push enc (2 ^ k) b (push enc (2 ^ k) a t))) = m_buffer_count t + 3"
    and "pops (2 ^ k) (m_buffer_count t + 3) (push enc (2 ^ k) c (push enc (2 ^ k) b (push enc (2 ^ k) a t)))
           = pops (2 ^ k) (m_buffer_count t) t @ [ucast a, ucast b, ucast c]"
proof -
  let ?t1 = "push enc (2 ^ k) a t"
  let ?t2 = "push enc (2 ^ k) b ?t1"
  let ?t3 = "push enc (2 ^ k) c ?t2"
  have r0: "has_room enc (2 ^ k) a t" using room a by (simp add: has_room_def)
  note 1 = push_fifo[OF ok r0]
  have n1: "m_buffer_count ?t1 = m_buffer_count t + 1" using 1(2) a by (simp add: pushed_bytes_def)
  have r1: "has_room enc (2 ^ k) b ?t1" using room b n1 by (simp add: has_room_def)
  note 2 = push_fifo[OF 1(1) r1]
  have n2: "m_buffer_count ?t2 = m_buffer_count t + 2" using 2(2) n1 b by (simp add: pushed_bytes_def)
  have r2: "has_room enc (2 ^ k) c ?t2" using room c n2 by (simp add: has_room_def)
  note 3 = push_fifo[OF 2(1) r2]
  show "m_buffer_count ?t3 = m_buffer_count t + 3" using 3(2) n2 c by (simp add: pushed_bytes_def)
  have p1: "pops (2 ^ k) (Suc (m_buffer_count t)) ?t1 = pops (2 ^ k) (m_buffer_count t) t @ [ucast a]"
    using 1(3) a by (simp add: pushed_bytes_def del: pops.simps)
  have p2: "pops (2 ^ k) (Suc (Suc (m_buffer_count t))) ?t2
      = pops (2 ^ k) (Suc (m_buffer_count t)) ?t1 @ [ucast b]"
    using 2(3) b n1 by (simp add: pushed_bytes_def del: pops.simps)
  have p3: "pops (2 ^ k) (Suc (Suc (Suc (m_buffer_count t)))) ?t3
      = pops (2 ^ k) (Suc (Suc (m_buffer_count t))) ?t2 @ [ucast c]"
    using 3(3) c n2 by (simp add: pushed_bytes_def del: pops.simps)
  have "m_buffer_count t + 3 = Suc (Suc (Suc (m_buffer_count t)))" by simp
  then show "pops (2 ^ k) (m_buffer_count t + 3) ?t3
           = pops (2 ^ k) (m_buffer_count t) t @ [ucast a, ucast b, ucast c]"
    by (simp only: p3 p2 p1 append_assoc append.simps)
qed

text \<open>
  How the handling of one key event sits in \<^verbatim>\<open>read_console\<close>: once the size of the
  console is on record, a key event at the head of the queue that pushes something ends
  the call with what \<open>encode_key\<close> pushed; \<^verbatim>\<open>select\<close> makes that call on an empty ring.
\<close>

lemma read_console_key:
  assumes "g_last_buffer_size t = buffer_size_word h" and "buffer_size_word h \<noteq> 0"
    and "input_queue h = KEY_EVENT key # rest" and "encode_key enc cfg cap key t = Some t'"
  shows "read_console enc cfg cap (t, h) = Some (t', h\<lparr>input_queue := rest\<rparr>)"
  using assms by (subst read_console.simps) (simp add: Let_def)

lemma select_key:
  assumes "m_buffer_count t = 0"
    and "g_last_buffer_size t = buffer_size_word h" and "buffer_size_word h \<noteq> 0"
    and "input_queue h = KEY_EVENT key # rest" and "encode_key enc cfg cap key t = Some t'"
  shows "select enc cfg cap (t, h) = Some (t', h\<lparr>input_queue := rest\<rparr>)"
  using assms(1) read_console_key[OF assms(2-5)] by (simp add: select_def)

text \<open>
  Claim C8. A key-down event for Arrow-Up (virtual key \<^verbatim>\<open>VK_UP\<close>, scan code \<open>H\<close>, no
  Unicode value) with Shift not held, handled on a ring with room for three bytes,
  pushes exactly three bytes after what the ring holds: ESC, then \<open>[\<close> when no Ctrl key
  is held and \<open>O\<close> when one is, then \<open>A\<close>.
\<close>

theorem arrow_up_sequence:
  assumes "ring_ok k t" and "m_buffer_count t + 3 \<le> 2 ^ k"
    and "bKeyDown key" and "UnicodeChar key = 0"
    and "wVirtualKeyCode key = VK_UP" and "wVirtualScanCode key = of_char CHR ''H''"
    and "dwControlKeyState key AND SHIFT_PRESSED = 0"
  shows "\<exists>t'. encode_key enc cfg (2 ^ k) key t = Some t'
           \<and> m_buffer_count t' = m_buffer_count t + 3
           \<and> pops (2 ^ k) (m_buffer_count t + 3) t'
               = pops (2 ^ k) (m_buffer_count t) t
                 @ [0x1b,
                    if dwControlKeyState key AND CTRL_PRESSED = 0 then of_char CHR ''[''
                    else of_char CHR ''O'',
                    of_char CHR ''A'']"
proof -
  let ?mid = "if dwControlKeyState key AND CTRL_PRESSED \<noteq> 0 then of_char CHR ''O''
              else (of_char CHR ''['' :: dword)"
  let ?t' = "push enc (2 ^ k) (of_char CHR ''A'') (push enc (2 ^ k) ?mid (push enc (2 ^ k) 0x1b t))"
  have e: "encode_key enc cfg (2 ^ k) key t = Some ?t'"
    using assms(3-7)
    by (simp add: encode_key_def Let_def enhanced_vks_def mod_map_def VK_UP_def VK_DOWN_def
        VK_LEFT_def VK_RIGHT_def VK_HOME_def VK_END_def VK_INSERT_def VK_DELETE_def
        VK_PRIOR_def VK_NEXT_def enhanced_keeps_ctrl enhanced_keeps_shift enhanced_nonzero)
  have m: "?mid < 0x80" by simp
  from push3_fifo[OF assms(1,2) _ m, of "0x1b" "of_char CHR ''A''"] e
  show ?thesis by auto
qed

theorem arrow_up_sequence_witness:
  "(\<exists>t'. encode_key to_utf8 default_settings (2 ^ 3) (key_down 0 VK_UP (of_char CHR ''H'') 0) sample_terminal = Some t'
      \<and> m_buffer_count t' = 3
      \<and> pops (2 ^ 3) 3 t' = [0x1b, of_char CHR ''['', of_char CHR ''A''])
   \<and> (\<exists>t'. encode_key to_utf8 default_settings (2 ^ 3) (key_down 0 VK_UP (of_char CHR ''H'') LEFT_CTRL_PRESSED)
              sample_terminal = Some t'
      \<and> m_buffer_count t' = 3
      \<and> pops (2 ^ 3) 3 t' = [0x1b, of_char CHR ''O'', of_char CHR ''A''])"
proof -
  have ok: "ring_ok 3 sample_terminal" by (simp add: ring_ok_def sample_terminal_def)
  have room: "m_buffer_count sample_terminal + 3 \<le> 2 ^ 3" by (simp add: sample_terminal_def)
  have n: "m_buffer_count sample_terminal = 0" by (simp add: sample_terminal_def)
  have 1: "dwControlKeyState (key_down 0 VK_UP (of_char CHR ''H'') 0) AND SHIFT_PRESSED = 0"
    by (simp add: key_down_def)
  have 2: "dwControlKeyState (key_down 0 VK_UP (of_char CHR ''H'') LEFT_CTRL_PRESSED) AND SHIFT_PRESSED = 0"
    by (simp add: key_down_def LEFT_CTRL_PRESSED_def SHIFT_PRESSED_def)
  have 3: "dwControlKeyState (key_down 0 VK_UP (of_char CHR ''H'') LEFT_CTRL_PRESSED) AND CTRL_PRESSED \<noteq> 0"
    by (simp add: key_down_def LEFT_CTRL_PRESSED_def CTRL_PRESSED_def RIGHT_CTRL_PRESSED_def)
  from arrow_up_sequence[OF ok room _ _ _ _ 1, where enc = to_utf8 and cfg = default_settings]
       arrow_up_sequence[OF ok room _ _ _ _ 2, where enc = to_utf8 and cfg = default_settings] 3
  show ?thesis by (simp add: n key_down_def)
qed

lemma unat_ucast_wide: "unat (ucast (w :: 16 word) :: dword) = unat w"
proof -
  have "unat w < 2 ^ 16" using unsigned_less[of w, where 'a = nat] by simp
  then have "unat w < 2 ^ 32" by simp
  then have "take_bit 32 (unat w) = unat w" by (simp only: take_bit_nat_eq_self)
  then show ?thesis by (simp only: unsigned_ucast_eq) simp
qed

lemma ucast_wide_le: "((ucast (a :: 16 word) :: dword) \<le> ucast b) = (a \<le> b)"
  by (simp add: word_le_nat_alt unat_ucast_wide)

lemma ucast_wide_less: "((ucast (a :: 16 word) :: dword) < ucast b) = (a < b)"
  by (simp add: word_less_nat_alt unat_ucast_wide)

lemma ucast_wide_back: "(ucast (ucast (w :: 16 word) :: dword) :: 16 word) = w"
  by (simp add: ucast_up_ucast_id is_up)

lemma ucast_wide_zero: "((ucast (w :: 16 word) :: dword) = 0) = (w = 0)"
  by (simp add: word_unat_eq_iff unat_ucast_wide del: unsigned_eq_0_iff)

lemma ucast_wide_byte: "(ucast (ucast (w :: 16 word) :: dword) :: 8 word) = ucast w"
  by (rule bit_word_eqI) (auto simp add: bit_simps)

lemma letter_not_enhanced:
  assumes "of_char CHR ''A'' \<le> vk" "vk \<le> of_char CHR ''Z''"
  shows "vk \<notin> set enhanced_vks"
  using assms
  by (auto simp: enhanced_vks_def VK_UP_def VK_DOWN_def VK_LEFT_def VK_RIGHT_def VK_HOME_def
      VK_END_def VK_INSERT_def VK_DELETE_def VK_PRIOR_def VK_NEXT_def)

lemma letter_ctrl_map:
  assumes "of_char CHR ''A'' \<le> vk" "vk \<le> of_char CHR ''Z''"
  shows "ctrl_map vk = Some (vk - 0x40)"
proof -
  have "vk - 0x41 \<le> 0x19" using assms by simp unat_arith
  then show ?thesis by (simp add: ctrl_map_def CONTAINS_def)
qed

text \<open>
  Claim C1. For a key-down event with a Ctrl key held, no Unicode value and a letter
  virtual key, the chain of \<^verbatim>\<open>CONTAINS\<close> tests computes the control code in \<^verbatim>\<open>key_vk\<close>
  (the letter's code less 0x40), but the byte pushed is \<^verbatim>\<open>key_char\<close>, which is 0 on
  this path: every Ctrl+letter pushes the byte 0x00.
\<close>

theorem ctrl_letter_pushes_nul:
  assumes "bKeyDown key" and "UnicodeChar key = 0"
    and "dwControlKeyState key AND CTRL_PRESSED \<noteq> 0"
    and "dwControlKeyState key AND ENHANCED_KEY = 0"
    and "of_char CHR ''A'' \<le> wVirtualKeyCode key" and "wVirtualKeyCode key \<le> of_char CHR ''Z''"
  shows "ctrl_map (ucast (wVirtualKeyCode key)) = Some (ucast (wVirtualKeyCode key) - 0x40)
         \<and> encode_key enc cfg cap key t = Some (push enc cap 0 t)"
proof -
  have a: "(of_char CHR ''A'' :: dword) \<le> ucast (wVirtualKeyCode key)"
    using assms(5) ucast_wide_le[of "of_char CHR ''A''" "wVirtualKeyCode key"] by simp
  have z: "(ucast (wVirtualKeyCode key) :: dword) \<le> of_char CHR ''Z''"
    using assms(6) ucast_wide_le[of "wVirtualKeyCode key" "of_char CHR ''Z''"] by simp
  show ?thesis
    using assms(1-4) letter_not_enhanced[OF a z] letter_ctrl_map[OF a z]
    by (simp add: encode_key_def Let_def)
qed

theorem ctrl_letter_pushes_nul_witness:
  "encode_key to_utf8 default_settings 8 (key_down 0 (of_char CHR ''A'') 0x1e LEFT_CTRL_PRESSED) sample_terminal
     = Some (push to_utf8 8 0 sample_terminal)
   \<and> pops 8 1 (push to_utf8 8 0 sample_terminal) = [0x00]
   \<and> map_option (\<lambda>(t, h). pops 8 2 t)
        (select to_utf8 default_settings 8
          (begin_session (sample_terminal, sample_console
             \<lparr>input_queue := [KEY_EVENT (key_down 0 (of_char CHR ''A'') 0x1e LEFT_CTRL_PRESSED)]\<rparr>)))
       = Some [0x00, 0xff]"
proof -
  have 1: "dwControlKeyState (key_down 0 (of_char CHR ''A'') 0x1e LEFT_CTRL_PRESSED) AND CTRL_PRESSED \<noteq> 0"
    by (simp add: key_down_def LEFT_CTRL_PRESSED_def CTRL_PRESSED_def RIGHT_CTRL_PRESSED_def)
  have 2: "dwControlKeyState (key_down 0 (of_char CHR ''A'') 0x1e LEFT_CTRL_PRESSED) AND ENHANCED_KEY = 0"
    by (simp add: key_down_def LEFT_CTRL_PRESSED_def ENHANCED_KEY_def)
  have 3: "pops 8 1 (push to_utf8 8 0 sample_terminal) = [0x00]" by code_simp
  have 4: "map_option (\<lambda>(t, h). pops 8 2 t)
        (select to_utf8 default_settings 8
          (begin_session (sample_terminal, sample_console
             \<lparr>input_queue := [KEY_EVENT (key_down 0 (of_char CHR ''A'') 0x1e LEFT_CTRL_PRESSED)]\<rparr>)))
       = Some [0x00, 0xff]" by code_simp
  from ctrl_letter_pushes_nul[OF _ _ 1 2,
         where enc = to_utf8 and cfg = default_settings and cap = 8 and t = sample_terminal] 3 4
  show ?thesis by (simp add: key_down_def)
qed

text \<open>
  Claim C2. When one element of the ring is free, pushing U+00E9 (two bytes in UTF-8)
  stores nothing, and yet adds two to the count, which then exceeds the element count
  by one. The bytes counted in were never written: the pops that follow return stale
  elements of the buffer.
\<close>

theorem push_overflows_count:
  assumes "0 < cap" and "m_buffer_count t = cap - 1"
  shows "m_buffer_count (push to_utf8 cap 0xE9 t) = cap + 1
         \<and> m_buffer (push to_utf8 cap 0xE9 t) = m_buffer t"
proof -
  have u: "to_utf8 [0xE9, 0] = [0xC3, 0xA9]"
    by (simp add: to_utf8_def utf8_bytes_def)
  have m: "mask_of cap - (cap - 1) = 0" by (simp add: mask_of_def)
  have c: "\<not> cap \<le> m_buffer_count t" using assms by simp
  have v: "\<not> (0xE9 :: dword) < 0x80" by simp
  have "push to_utf8 cap 0xE9 t = t\<lparr>m_buffer_count := m_buffer_count t + 2\<rparr>"
    using c m assms(2) by (simp add: push_def Let_def u)
  then show ?thesis using assms by simp
qed

theorem push_overflows_count_witness:
  "m_buffer_count (fold (push to_utf8 8) [0x41, 0x41, 0x41, 0x41, 0x41, 0x41, 0x41] sample_terminal) = 8 - 1
   \<and> m_buffer_count (push to_utf8 8 0xE9 (fold (push to_utf8 8) [0x41, 0x41, 0x41, 0x41, 0x41, 0x41, 0x41] sample_terminal)) = 8 + 1
   \<and> pops 8 9 (push to_utf8 8 0xE9 (fold (push to_utf8 8) [0x41, 0x41, 0x41, 0x41, 0x41, 0x41, 0x41] sample_terminal))
       = [0x41, 0x41, 0x41, 0x41, 0x41, 0x41, 0x41, 0x00, 0x41]"
proof -
  have h: "m_buffer_count (fold (push to_utf8 8) [0x41, 0x41, 0x41, 0x41, 0x41, 0x41, 0x41] sample_terminal) = 8 - 1" by code_simp
  have p: "pops 8 9 (push to_utf8 8 0xE9 (fold (push to_utf8 8) [0x41, 0x41, 0x41, 0x41, 0x41, 0x41, 0x41] sample_terminal))
       = [0x41, 0x41, 0x41, 0x41, 0x41, 0x41, 0x41, 0x00, 0x41]" by code_simp
  from push_overflows_count[OF _ h] h p show ?thesis by simp
qed

lemma no_alt_left:
  "f AND (LEFT_ALT_PRESSED OR RIGHT_ALT_PRESSED) = 0 \<Longrightarrow> f AND LEFT_ALT_PRESSED = 0"
  by (simp add: bit.conj_disj_distrib or_eq_0_iff)

lemma ucast_wide_ascii: "((ucast (c :: wchar) :: dword) < 0x80) = (c < 0x80)"
  using ucast_wide_less[of c "0x80"] by simp

lemma plain_key_push:
  assumes "bKeyDown key" and "UnicodeChar key \<noteq> 0"
    and "dwControlKeyState key AND (LEFT_ALT_PRESSED OR RIGHT_ALT_PRESSED) = 0"
    and "dwControlKeyState key AND SHIFT_PRESSED = 0"
  shows "encode_key enc cfg cap key t = Some (push enc cap (ucast (UnicodeChar key)) t)"
  using assms no_alt_left[OF assms(3)]
  by (simp add: encode_key_def Let_def ucast_wide_zero)

lemma pushed_bytes_unit:
  assumes "0x80 \<le> c \<longrightarrow> enc [c, 0] = utf8_bytes (unat c)"
  shows "pushed_bytes enc (ucast (c :: wchar)) = utf8_bytes (unat c)"
proof (cases "c < 0x80")
  case True
  then have "unat c < 0x80" by (simp add: word_less_nat_alt)
  moreover have "(ucast (ucast c :: dword) :: byte) = of_nat (unat c)"
    by (simp add: ucast_wide_byte)
  ultimately show ?thesis using True
    by (simp add: pushed_bytes_def utf8_bytes_def ucast_wide_ascii)
next
  case False
  then show ?thesis using assms
    by (simp add: pushed_bytes_def ucast_wide_ascii ucast_wide_back)
qed

lemma to_utf8_unit: "c \<noteq> 0 \<Longrightarrow> to_utf8 [c, 0] = utf8_bytes (unat c)"
  by (simp add: to_utf8_def)

text \<open>
  Claim C5, as amended. A key event carries one UTF-16 unit. For a key-down event whose
  unit is a nonzero scalar value (so not a surrogate), with no Alt, Ctrl or Shift held,
  handled on a ring with room (one free element for a value below 0x80; otherwise the
  test \<^verbatim>\<open>n <= mask - m_buffer_count\<close> of \<^verbatim>\<open>push\<close>), the bytes appended to the ring are
  exactly the UTF-8 encoding of that scalar value, whatever transcoder \<^verbatim>\<open>push\<close> calls,
  provided that for a unit from 0x80 on the transcoder, handed the unit and its
  terminator, returns the UTF-8 encoding of the unit.
\<close>

theorem unicode_key_utf8:
  assumes "ring_ok k t"
    and "bKeyDown key" and "UnicodeChar key = c"
    and "c \<noteq> 0" and "c < 0xD800 \<or> 0xDFFF < c"
    and "0x80 \<le> c \<longrightarrow> enc [c, 0] = utf8_bytes (unat c)"
    and "dwControlKeyState key AND (LEFT_ALT_PRESSED OR RIGHT_ALT_PRESSED) = 0"
    and "dwControlKeyState key AND CTRL_PRESSED = 0"
    and "dwControlKeyState key AND SHIFT_PRESSED = 0"
    and "if c < 0x80 then m_buffer_count t < 2 ^ k
         else m_buffer_count t + length (utf8_bytes (unat c)) < 2 ^ k"
  shows "\<exists>t'. encode_key enc cfg (2 ^ k) key t = Some t'
           \<and> m_buffer_count t' = m_buffer_count t + length (utf8_bytes (unat c))
           \<and> pops (2 ^ k) (m_buffer_count t + length (utf8_bytes (unat c))) t'
               = pops (2 ^ k) (m_buffer_count t) t @ utf8_bytes (unat c)"
proof -
  note pb = pushed_bytes_unit[where enc = enc and c = c, OF assms(6)]
  have e: "encode_key enc cfg (2 ^ k) key t = Some (push enc (2 ^ k) (ucast c) t)"
    using plain_key_push[OF assms(2) _ assms(7,9)] assms(3,4) by simp
  have room: "has_room enc (2 ^ k) (ucast c) t"
    using assms(10) by (simp add: has_room_def pb ucast_wide_ascii)
  from push_fifo(2,3)[OF assms(1) room] e show ?thesis by (simp add: pb)
qed

theorem unicode_key_utf8_witness:
  "(\<exists>t'. encode_key to_utf8 default_settings (2 ^ 3) (key_down 0x20AC 0x35 0x06 0) sample_terminal = Some t'
      \<and> m_buffer_count t' = 3
      \<and> pops (2 ^ 3) 3 t' = [0xE2, 0x82, 0xAC])"
proof -
  have ok: "ring_ok 3 sample_terminal" by (simp add: ring_ok_def sample_terminal_def)
  have n: "m_buffer_count sample_terminal = 0" by (simp add: sample_terminal_def)
  have u: "utf8_bytes 0x20AC = [0xE2, 0x82, 0xAC]" by (simp add: utf8_bytes_def)
  have room: "if (0x20AC :: wchar) < 0x80 then m_buffer_count sample_terminal < 2 ^ 3
         else m_buffer_count sample_terminal + length (utf8_bytes (unat (0x20AC :: wchar))) < 2 ^ 3"
    by (simp add: n u)
  have c: "(0x20AC :: wchar) < 0xD800 \<or> 0xDFFF < (0x20AC :: wchar)" by simp
  have t: "0x80 \<le> (0x20AC :: wchar) \<longrightarrow> to_utf8 [0x20AC, 0] = utf8_bytes (unat (0x20AC :: wchar))"
    by (simp add: to_utf8_unit)
  from unicode_key_utf8[where enc = to_utf8 and c = "0x20AC" and k = 3 and t = sample_terminal
         and key = "key_down 0x20AC 0x35 0x06 0" and cfg = default_settings, OF ok _ _ _ c t _ _ _ room]
  show ?thesis by (simp add: key_down_def n u numeral_3_eq_3 del: pops.simps(2))
qed

lemma length_pops: "length (pops cap n t) = n"
  by (induction n arbitrary: t) (auto simp: pop_def Let_def split: prod.splits)

lemma after_pops_count: "m_buffer_count (after_pops cap n t) = m_buffer_count t - n"
  by (induction n arbitrary: t) (auto simp: pop_def)

lemma pop_ring_ok: "ring_ok 3 t \<Longrightarrow> ring_ok 3 (snd (pop 8 t))"
proof -
  have "(x::nat) AND 7 < 8" for x
    using and_pow2_minus1[of x 3] by simp
  then show "ring_ok 3 t \<Longrightarrow> ring_ok 3 (snd (pop 8 t))"
    by (auto simp: pop_def ring_ok_def)
qed

lemma after_pops_ring_ok: "ring_ok 3 t \<Longrightarrow> ring_ok 3 (after_pops 8 n t)"
  by (induction n arbitrary: t) (auto simp: pop_ring_ok)

lemma push_wide_count:
  assumes "m_buffer_count t = 0" and "\<not> v < 0x80"
  shows "m_buffer_count (push enc 8 v t) = length (enc [ucast v, 0])"
  using assms by (simp add: push_def Let_def)

lemma push_wide_ring_ok:
  assumes "ring_ok 3 t"
  shows "ring_ok 3 (push enc 8 v t)"
  using assms by (simp add: push_def Let_def ring_ok_def)

lemma push_wide_pops:
  assumes "ring_ok 3 t" and "m_buffer_count t = 0" and "\<not> v < 0x80"
    and "length (enc [ucast v, 0]) < 8"
  shows "pops 8 (length (enc [ucast v, 0])) (push enc 8 v t) = enc [ucast v, 0]"
proof -
  have room: "has_room enc (2 ^ 3) v t"
    using assms(2-4) by (simp add: has_room_def pushed_bytes_def)
  from push_fifo(3)[OF assms(1) room] assms(2,3) show ?thesis
    by (simp add: pushed_bytes_def del: pops.simps(2))
qed

lemma type_unit:
  assumes "ring_ok 3 t" and "m_buffer_count t = 0" and "\<not> u < 0x80"
  shows "\<exists>bs t'. type_units enc (u # us) t = bs @ type_units enc us t'
           \<and> length bs = length (enc [u, 0])
           \<and> (length (enc [u, 0]) < 8 \<longrightarrow> bs = enc [u, 0])
           \<and> ring_ok 3 t' \<and> m_buffer_count t' = 0"
proof -
  let ?t1 = "push enc 8 (ucast u) t"
  have v: "\<not> (ucast u :: dword) < 0x80" using assms(3) by (simp add: ucast_wide_ascii)
  have nz: "u \<noteq> 0" using assms(3) by auto
  have e: "encode_key enc default_settings 8 (key_down u 0 0 0) t = Some ?t1"
    using plain_key_push[of "key_down u 0 0 0" enc default_settings 8 t] nz
    by (simp add: key_down_def)
  have c: "m_buffer_count ?t1 = length (enc [u, 0])"
    using push_wide_count[OF assms(2) v, of enc] by (simp add: ucast_wide_back)
  have p: "length (enc [u, 0]) < 8 \<Longrightarrow> pops 8 (length (enc [u, 0])) ?t1 = enc [u, 0]"
    using push_wide_pops[OF assms(1,2) v, of enc] by (simp add: ucast_wide_back del: pops.simps)
  have r: "ring_ok 3 (after_pops 8 (length (enc [u, 0])) ?t1)"
    by (intro after_pops_ring_ok push_wide_ring_ok assms(1))
  have z: "m_buffer_count (after_pops 8 (length (enc [u, 0])) ?t1) = 0"
    by (simp add: after_pops_count c)
  have s: "type_units enc (u # us) t
      = pops 8 (length (enc [u, 0])) ?t1
        @ type_units enc us (after_pops 8 (length (enc [u, 0])) ?t1)"
    by (simp add: e c del: pops.simps after_pops.simps)
  show ?thesis
  proof (intro exI conjI)
    show "type_units enc (u # us) t
      = pops 8 (length (enc [u, 0])) ?t1
        @ type_units enc us (after_pops 8 (length (enc [u, 0])) ?t1)" by (rule s)
    show "length (pops 8 (length (enc [u, 0])) ?t1) = length (enc [u, 0])" by (rule length_pops)
    show "length (enc [u, 0]) < 8 \<longrightarrow> pops 8 (length (enc [u, 0])) ?t1 = enc [u, 0]"
      using p by blast
    show "ring_ok 3 (after_pops 8 (length (enc [u, 0])) ?t1)" by (rule r)
    show "m_buffer_count (after_pops 8 (length (enc [u, 0])) ?t1) = 0" by (rule z)
  qed
qed

lemma typed_pair:
  assumes "\<not> hi < 0x80" and "\<not> lo < 0x80"
  shows "length (typed enc [hi, lo]) = length (enc [hi, 0]) + length (enc [lo, 0])"
    and "length (enc [hi, 0]) + length (enc [lo, 0]) < 8
         \<Longrightarrow> typed enc [hi, lo] = enc [hi, 0] @ enc [lo, 0]"
proof -
  have ok: "ring_ok 3 sample_terminal" "m_buffer_count sample_terminal = 0"
    by (simp_all add: ring_ok_def sample_terminal_def)
  from type_unit[OF ok assms(1), of enc "[lo]"]
  obtain bs t' where 1: "type_units enc [hi, lo] sample_terminal = bs @ type_units enc [lo] t'"
    "length bs = length (enc [hi, 0])" "length (enc [hi, 0]) < 8 \<longrightarrow> bs = enc [hi, 0]"
    "ring_ok 3 t'" "m_buffer_count t' = 0" by blast
  from type_unit[OF 1(4,5) assms(2), of enc "[]"]
  obtain cs t'' where 2: "type_units enc [lo] t' = cs @ type_units enc [] t''"
    "length cs = length (enc [lo, 0])" "length (enc [lo, 0]) < 8 \<longrightarrow> cs = enc [lo, 0]" by blast
  show "length (typed enc [hi, lo]) = length (enc [hi, 0]) + length (enc [lo, 0])"
    using 1(1,2) 2(1,2) by (simp add: typed_def)
  show "typed enc [hi, lo] = enc [hi, 0] @ enc [lo, 0]"
    if "length (enc [hi, 0]) + length (enc [lo, 0]) < 8"
    using that 1(1,3) 2(1,3) by (simp add: typed_def)
qed

lemma no_split:
  assumes "A @ B = [0xF0, 0x9F, 0x98, 0x80 :: byte]"
    and "A @ C = [0xF0, 0x9F, 0x99, 0x80]"
    and "D @ B = [0xF0, 0x9F, 0x88, 0x80]"
  shows False
  using assms by (auto simp: append_eq_Cons_conv Cons_eq_append_conv)

text \<open>
  Claim C5 as stated fails above 0xFFFF. The host delivers U+1F600 as two key events,
  one for the high surrogate 0xD83D and one for the low surrogate 0xDE00. Each is
  handled by its own call of \<^verbatim>\<open>push\<close>, which hands the transcoder that one unit and a
  terminator and keeps nothing for the next call: nothing composes the pair. So the
  bytes read for the first event depend on the high surrogate alone and those for the
  second on the low surrogate alone, and no transcoder whatever makes the bytes read for
  the pair the UTF-8 encoding of the scalar for each of U+1F600, U+1F640 and U+1F200
  (the first two share the high surrogate, the first and the last the low one). With the
  transcoder of the spec, which keeps an unpaired surrogate as a code point of its own,
  the two events of U+1F600 give six bytes, not the four bytes F0 9F 98 80.
\<close>

theorem unicode_key_surrogate_pair_counterexample:
  "utf16_decode [0xD83D, 0xDE00] = [0x1F600]
   \<and> \<not> (\<exists>enc. typed enc [0xD83D, 0xDE00] = utf8_bytes 0x1F600
            \<and> typed enc [0xD83D, 0xDE40] = utf8_bytes 0x1F640
            \<and> typed enc [0xD83C, 0xDE00] = utf8_bytes 0x1F200)
   \<and> typed to_utf8 [0xD83D, 0xDE00] = [0xED, 0xA0, 0xBD, 0xED, 0xB8, 0x80]"
proof (intro conjI notI)
  show "utf16_decode [0xD83D, 0xDE00] = [0x1F600]" by simp
next
  assume "\<exists>enc. typed enc [0xD83D, 0xDE00] = utf8_bytes 0x1F600
            \<and> typed enc [0xD83D, 0xDE40] = utf8_bytes 0x1F640
            \<and> typed enc [0xD83C, 0xDE00] = utf8_bytes 0x1F200"
  then obtain enc where e: "typed enc [0xD83D, 0xDE00] = [0xF0, 0x9F, 0x98, 0x80]"
      "typed enc [0xD83D, 0xDE40] = [0xF0, 0x9F, 0x99, 0x80]"
      "typed enc [0xD83C, 0xDE00] = [0xF0, 0x9F, 0x88, 0x80]"
    by (auto simp: utf8_bytes_def)
  have 1: "enc [0xD83D, 0] @ enc [0xDE00, 0] = [0xF0, 0x9F, 0x98, 0x80]"
    using typed_pair[of "0xD83D" "0xDE00" enc] e(1) by simp
  have 2: "enc [0xD83D, 0] @ enc [0xDE40, 0] = [0xF0, 0x9F, 0x99, 0x80]"
    using typed_pair[of "0xD83D" "0xDE40" enc] e(2) by simp
  have 3: "enc [0xD83C, 0] @ enc [0xDE00, 0] = [0xF0, 0x9F, 0x88, 0x80]"
    using typed_pair[of "0xD83C" "0xDE00" enc] e(3) by simp
  from no_split[OF 1 2 3] show False .
next
  have a: "to_utf8 [0xD83D, 0] = [0xED, 0xA0, 0xBD]" by (simp add: to_utf8_def utf8_bytes_def)
  have b: "to_utf8 [0xDE00, 0] = [0xED, 0xB8, 0x80]" by (simp add: to_utf8_def utf8_bytes_def)
  show "typed to_utf8 [0xD83D, 0xDE00] = [0xED, 0xA0, 0xBD, 0xED, 0xB8, 0x80]"
    using typed_pair(2)[of "0xD83D" "0xDE00" to_utf8] by (simp add: a b)
qed

section \<open>Properties of the subprocess call\<close>

declare extract_lines.simps [simp del]
declare collect_output.simps [simp del]

lemma is_eol_nonzero: "is_eol b \<Longrightarrow> b \<noteq> 0"
  by (auto simp: is_eol_def)

lemma split_eol_nonempty: "split_eol s \<noteq> []"
  by (induction s) (auto split: list.splits)

lemma split_eol_plain:
  "\<forall>b\<in>set a. \<not> is_eol b \<Longrightarrow> split_eol (a @ e # x) = (if is_eol e then a # split_eol x
      else (case split_eol x of [] \<Rightarrow> [a @ [e]] | l # ls \<Rightarrow> (a @ e # l) # ls))"
  by (induction a) (auto split: list.splits)

lemma split_eol_no_eol: "\<forall>b\<in>set a. \<not> is_eol b \<Longrightarrow> split_eol a = [a]"
  by (induction a) auto

lemma split_eol_eols:
  "\<forall>b\<in>set es. is_eol b \<Longrightarrow> split_eol (es @ y) = replicate (length es) [] @ split_eol y"
  by (induction es) auto

lemma c_string_append:
  "\<forall>b\<in>set a. b \<noteq> 0 \<Longrightarrow> c_string (a @ x) = a @ c_string x"
  by (simp add: c_string_def takeWhile_append2)

lemma strpbrk_eol_Some:
  "strpbrk_eol str = Some k \<Longrightarrow>
   k < length str \<and> is_eol (str ! k) \<and> (\<forall>b\<in>set (take k str). b \<noteq> 0 \<and> \<not> is_eol b)"
proof (induction str arbitrary: k)
  case Nil
  then show ?case by simp
next
  case (Cons b bs)
  show ?case
  proof (cases "b = 0 \<or> is_eol b")
    case True
    then show ?thesis using Cons.prems by (auto split: if_splits)
  next
    case False
    then obtain k' where k': "strpbrk_eol bs = Some k'" "k = Suc k'"
      using Cons.prems by (auto split: if_splits)
    from Cons.IH[OF k'(1)] False k'(2) show ?thesis by auto
  qed
qed

lemma strpbrk_eol_None:
  "strpbrk_eol str = None \<Longrightarrow> \<forall>b\<in>set (c_string str). \<not> is_eol b"
  by (induction str) (auto simp: c_string_def split: if_splits)


lemma output_lines_plain:
  assumes "\<forall>b\<in>set (c_string str). \<not> is_eol b"
  shows "output_lines str = [c_string str]"
  using assms by (simp add: output_lines_def split_eol_no_eol)

lemma next_line_lines:
  assumes "next_line str = (line', nx)"
  shows "output_lines str
           = c_string line' # (case nx of None \<Rightarrow> [] | Some nxt \<Rightarrow> output_lines nxt)"
proof (cases "strpbrk_eol str")
  case None
  then have "next_line str = (str, None)" by (simp add: next_line_def)
  then show ?thesis using assms output_lines_plain[OF strpbrk_eol_None[OF None]] by simp
next
  case (Some k)
  define a where "a = take k str"
  define e where "e = str ! k"
  define r where "r = drop (Suc k) str"
  define es where "es = takeWhile is_eol r"
  define eol where "eol = dropWhile is_eol r"
  from strpbrk_eol_Some[OF Some]
  have k: "k < length str" and ee: "is_eol e" and a0: "\<forall>b\<in>set a. b \<noteq> 0"
    and ae: "\<forall>b\<in>set a. \<not> is_eol b"
    by (auto simp: a_def e_def)
  have str: "str = a @ e # r"
    using k by (simp add: a_def e_def r_def id_take_nth_drop)
  have r: "r = es @ eol" by (simp add: es_def eol_def)
  have es: "\<forall>b\<in>set es. is_eol b" by (auto simp: es_def dest: set_takeWhileD)
  have es0: "\<forall>b\<in>set (e # es). b \<noteq> 0" using es ee by (auto dest: is_eol_nonzero)
  have dr: "drop (k + Suc (length es)) str = eol"
  proof -
    have "length a = k" using k by (simp add: a_def)
    then have "drop (k + Suc (length es)) str = drop (Suc (length es)) (e # es @ eol)"
      by (simp add: str r)
    then show ?thesis by simp
  qed
  have nl: "next_line str
      = (a @ replicate (Suc (length es)) 0 @ eol, if c_at eol \<noteq> 0 then Some eol else None)"
    using Some dr by (simp add: next_line_def Let_def a_def r_def es_def del: replicate_Suc)
  have first: "c_string (a @ replicate (Suc (length es)) 0 @ eol) = a"
    using a0 by (simp add: c_string_append) (simp add: c_string_def)
  have cs: "c_string str = a @ e # es @ c_string eol"
    using a0 es0 c_string_append[of "e # es" eol] by (simp add: str r c_string_append)
  have "split_eol (c_string str) = a # replicate (length es) [] @ split_eol (c_string eol)"
    using ae ee es by (simp add: cs split_eol_plain split_eol_eols)
  then have ol: "output_lines str = a # filter (\<lambda>l. l \<noteq> []) (split_eol (c_string eol))"
    by (simp add: output_lines_def)
  show ?thesis
  proof (cases "c_at eol \<noteq> 0")
    case False
    then have "c_string eol = []" by (auto simp: c_at_def c_string_def split: list.splits)
    moreover have "line' = a @ replicate (Suc (length es)) 0 @ eol" "nx = None"
      using assms nl False by simp_all
    ultimately show ?thesis using first ol by simp
  next
    case True
    then obtain b bs where eb: "eol = b # bs" "b \<noteq> 0"
      by (auto simp: c_at_def split: list.splits)
    have nb: "\<not> is_eol b" using eb(1) hd_dropWhile[of is_eol r] by (auto simp: eol_def)
    obtain l ls where sp: "split_eol (c_string bs) = l # ls"
      using split_eol_nonempty[of "c_string bs"] by (cases "split_eol (c_string bs)") auto
    have "c_string eol = b # c_string bs" using eb by (simp add: c_string_def)
    then have "split_eol (c_string eol) = (b # l) # ls" using nb sp by simp
    then have "filter (\<lambda>l. l \<noteq> []) (split_eol (c_string eol)) = output_lines eol"
      by (simp add: output_lines_def)
    moreover have "line' = a @ replicate (Suc (length es)) 0 @ eol" "nx = Some eol"
      using assms nl True by simp_all
    ultimately show ?thesis using first ol by simp
  qed
qed

lemma lua_rawset_fresh:
  "\<forall>(k, v)\<in>set tbl. k \<noteq> key \<Longrightarrow> lua_rawset key val tbl = (key, val) # tbl"
  by (auto simp: lua_rawset_def filter_id_conv)

lemma extract_lines_table:
  "\<forall>(k, v)\<in>set tbl. k \<le> c \<Longrightarrow>
   extract_lines c str tbl = rev (numbered c (output_lines str)) @ tbl"
proof (induction c str tbl rule: extract_lines.induct)
  case (1 c str tbl)
  obtain line' nx where nl: "next_line str = (line', nx)" by (cases "next_line str")
  note ol = next_line_lines[OF nl]
  have fresh: "lua_rawset (c + 1) (c_string line') tbl = (c + 1, c_string line') # tbl"
    using "1.prems" by (intro lua_rawset_fresh) auto
  show ?case
  proof (cases nx)
    case None
    then show ?thesis using nl ol fresh
      by (subst extract_lines.simps) (simp add: Let_def)
  next
    case (Some nxt)
    have keys: "\<forall>(k, v)\<in>set ((c + 1, c_string line') # tbl). k \<le> c + 1"
      using "1.prems" by auto
    have ih: "extract_lines (c + 1) nxt ((c + 1, c_string line') # tbl)
        = rev (numbered (c + 1) (output_lines nxt)) @ (c + 1, c_string line') # tbl"
      using "1.IH"[OF nl[symmetric] refl refl refl Some] keys fresh by simp
    show ?thesis using nl Some fresh ih
      by (subst extract_lines.simps) (simp add: Let_def ol)
  qed
qed

lemma collect_output_all:
  "2 \<le> page_size \<Longrightarrow> \<forall>off \<le> length (data @ concat pipe). commit off \<Longrightarrow>
   collect_output page_size commit pipe data remaining = data @ concat pipe"
proof (induction page_size commit pipe data remaining rule: collect_output.induct)
  case (1 page_size commit pipe data remaining)
  have here: "commit (length data)" using "1.prems"(2) by simp
  show ?case
  proof (cases pipe)
    case Nil
    then show ?thesis
      by (subst collect_output.simps) (simp add: ReadFile_def Let_def)
  next
    case (Cons burst rest)
    define rem where "rem = (if remaining \<le> 1 then page_size else remaining)"
    define pipe' where "pipe' = (if length burst \<le> rem - 1 then rest else drop (rem - 1) burst # rest)"
    have rf: "ReadFile pipe (rem - 1) = Some (take (rem - 1) burst, pipe')"
      by (simp add: ReadFile_def Cons pipe'_def)
    have p1: "\<not> page_size < 2" using "1.prems"(1) by simp
    have p2: "\<not> (remaining \<le> 1 \<and> \<not> commit (length data))" using here by simp
    have cc: "take (rem - 1) burst @ concat pipe' = concat pipe"
      by (simp add: pipe'_def Cons)
    have all: "\<forall>off \<le> length ((data @ take (rem - 1) burst) @ concat pipe'). commit off"
      using "1.prems"(2) unfolding append_assoc cc .
    have "collect_output page_size commit pipe' (data @ take (rem - 1) burst)
            (rem - length (take (rem - 1) burst))
        = (data @ take (rem - 1) burst) @ concat pipe'"
      by (rule "1.IH"[OF p1 p2 rem_def rf refl "1.prems"(1) all])
    then show ?thesis using p1 rf here cc
      by (subst collect_output.simps) (simp add: Let_def rem_def)
  qed
qed

text \<open>
  The buffer never holds the whole of an output of \<^verbatim>\<open>RESERVE\<close> bytes or more: what is
  collected is a part of the output from its start, shorter than \<^verbatim>\<open>RESERVE\<close>.
\<close>

lemma collect_output_prefix:
  "\<exists>n. collect_output page_size commit pipe data remaining = data @ take n (concat pipe)"
proof (induction page_size commit pipe data remaining rule: collect_output.induct)
  case (1 page_size commit pipe data remaining)
  have stop: "\<exists>n. data = data @ take n (concat pipe)" by (rule exI[of _ 0]) simp
  show ?case
  proof (cases "page_size < 2 \<or> (remaining \<le> 1 \<and> \<not> commit (length data))")
    case True
    then have "collect_output page_size commit pipe data remaining = data"
      by (subst collect_output.simps) auto
    then show ?thesis using stop by simp
  next
    case False
    then have p1: "\<not> page_size < 2" and p2: "\<not> (remaining \<le> 1 \<and> \<not> commit (length data))"
      by auto
    show ?thesis
    proof (cases pipe)
      case Nil
      then have "collect_output page_size commit pipe data remaining = data"
        using p1 p2 by (subst collect_output.simps) (auto simp: ReadFile_def Let_def)
      then show ?thesis using stop by simp
    next
      case (Cons burst rest)
      define rem where "rem = (if remaining \<le> 1 then page_size else remaining)"
      define pipe' where "pipe' = (if length burst \<le> rem - 1 then rest else drop (rem - 1) burst # rest)"
      define chunk where "chunk = take (rem - 1) burst"
      have rf: "ReadFile pipe (rem - 1) = Some (chunk, pipe')"
        by (simp add: ReadFile_def Cons pipe'_def chunk_def)
      have cc: "chunk @ concat pipe' = concat pipe"
        by (simp add: pipe'_def Cons chunk_def)
      obtain n where n: "collect_output page_size commit pipe' (data @ chunk) (rem - length chunk)
          = (data @ chunk) @ take n (concat pipe')"
        using "1.IH"[OF p1 p2 rem_def rf refl] by blast
      have step: "collect_output page_size commit pipe data remaining
          = collect_output page_size commit pipe' (data @ chunk) (rem - length chunk)"
        using p1 p2 rf by (subst collect_output.simps) (auto simp: Let_def rem_def)
      have "(data @ chunk) @ take n (concat pipe') = data @ take (length chunk + n) (concat pipe)"
        unfolding cc[symmetric] by simp
      then show ?thesis using step n by (intro exI[of _ "length chunk + n"]) simp
    qed
  qed
qed

lemma collect_output_short:
  "page_size = dwAllocationGranularity env \<Longrightarrow>
   length data + remaining \<le> RESERVE \<Longrightarrow> data = [] \<or> 1 \<le> remaining \<Longrightarrow> 0 < RESERVE \<Longrightarrow>
   length (collect_output page_size (VirtualAlloc_commit env) pipe data remaining) < RESERVE"
proof (induction page_size "VirtualAlloc_commit env" pipe data remaining rule: collect_output.induct)
  case (1 page_size pipe data remaining)
  note g = "1.prems"(1)
  have short: "length data < RESERVE" using "1.prems" by auto
  show ?case
  proof (cases "page_size < 2 \<or> (remaining \<le> 1 \<and> \<not> VirtualAlloc_commit env (length data))")
    case True
    then have "collect_output page_size (VirtualAlloc_commit env) pipe data remaining = data"
      by (subst collect_output.simps) auto
    then show ?thesis using short by simp
  next
    case False
    then have p1: "\<not> page_size < 2"
      and p2: "\<not> (remaining \<le> 1 \<and> \<not> VirtualAlloc_commit env (length data))"
      by auto
    show ?thesis
    proof (cases pipe)
      case Nil
      then have "collect_output page_size (VirtualAlloc_commit env) pipe data remaining = data"
        using p1 p2 by (subst collect_output.simps) (auto simp: ReadFile_def Let_def)
      then show ?thesis using short by simp
    next
      case (Cons burst rest)
      define rem where "rem = (if remaining \<le> 1 then page_size else remaining)"
      define pipe' where "pipe' = (if length burst \<le> rem - 1 then rest else drop (rem - 1) burst # rest)"
      define chunk where "chunk = take (rem - 1) burst"
      have rf: "ReadFile pipe (rem - 1) = Some (chunk, pipe')"
        by (simp add: ReadFile_def Cons pipe'_def chunk_def)
      have fits: "length data + rem \<le> RESERVE"
        using p2 g "1.prems"(2) by (auto simp: rem_def VirtualAlloc_commit_def)
      have rem1: "1 \<le> rem" using p1 by (auto simp: rem_def)
      have len: "length chunk \<le> rem - 1" by (simp add: chunk_def)
      have a: "length (data @ chunk) + (rem - length chunk) \<le> RESERVE"
        using fits len rem1 by simp
      have "1 \<le> rem - length chunk" using len rem1 by arith
      then have b: "data @ chunk = [] \<or> 1 \<le> rem - length chunk" by simp
      have step: "collect_output page_size (VirtualAlloc_commit env) pipe data remaining
          = collect_output page_size (VirtualAlloc_commit env) pipe' (data @ chunk) (rem - length chunk)"
        using p1 p2 rf by (subst collect_output.simps) (auto simp: Let_def rem_def)
      from "1.hyps"[OF p1 p2 rem_def rf refl g a b "1.prems"(4)] step
      show ?thesis by simp
    qed
  qed
qed

lemma lua_execute_started:
  assumes "stack \<noteq> []" and "lua_isstring stack 1" and "job_created env"
    and "launch_process env (lua_tostring stack 1)"
    and "2 \<le> dwAllocationGranularity env" and "VirtualAlloc_commit env 0"
  shows "lua_execute env stack =
     Some [LuaTable (rev (numbered 0 (output_lines
              (collect_output (dwAllocationGranularity env) (VirtualAlloc_commit env)
                 (stdout_bursts env) [] 0)))),
           LuaNumber (uint (case exit_code env of None \<Rightarrow> - 1 | Some c \<Rightarrow> c))]"
proof -
  have t: "extract_lines 0 str [] = rev (numbered 0 (output_lines str))" for str
    using extract_lines_table[of "[]" 0 str] by simp
  have g: "\<not> dwAllocationGranularity env < 2" using assms(5) by simp
  show ?thesis using assms(1-4,6) g by (simp add: lua_execute_def Let_def t)
qed

lemma lua_execute_launched:
  assumes "stack \<noteq> []" and "lua_isstring stack 1" and "job_created env"
    and "launch_process env (lua_tostring stack 1)"
    and "2 \<le> dwAllocationGranularity env"
    and "length (concat (stdout_bursts env)) + dwAllocationGranularity env \<le> RESERVE"
    and "\<forall>off \<le> length (concat (stdout_bursts env)). commit_ok env off"
  shows "lua_execute env stack =
     Some [LuaTable (rev (numbered 0 (output_lines (concat (stdout_bursts env))))),
           LuaNumber (uint (case exit_code env of None \<Rightarrow> - 1 | Some c \<Rightarrow> c))]"
proof -
  have v: "\<forall>off \<le> length ([] @ concat (stdout_bursts env)). VirtualAlloc_commit env off"
    using assms(6,7) by (simp add: VirtualAlloc_commit_def)
  have c: "collect_output (dwAllocationGranularity env) (VirtualAlloc_commit env)
             (stdout_bursts env) [] 0 = concat (stdout_bursts env)"
    using collect_output_all[OF assms(5) v, of 0] by simp
  have v0: "VirtualAlloc_commit env 0" using v by simp
  show ?thesis using lua_execute_started[OF assms(1-5) v0] by (simp add: c)
qed

declare text_lines.simps [simp del]

lemma c_string_no_nul: "0 \<notin> set s \<Longrightarrow> c_string s = s"
  by (simp add: c_string_def takeWhile_eq_all_conv) metis

lemma text_lines_hd: "\<exists>ls. text_lines s = takeWhile (\<lambda>b. \<not> is_eol b) s # ls"
proof (cases "dropWhile (\<lambda>b. \<not> is_eol b) s")
  case Nil
  then have tk: "takeWhile (\<lambda>b. \<not> is_eol b) s = s"
    by (simp add: dropWhile_eq_Nil_conv takeWhile_eq_all_conv)
  have tx: "text_lines s = [s]"
    by (subst text_lines.simps) (simp only: Nil list.case)
  show ?thesis unfolding tk tx by blast
next
  case (Cons e rest)
  show ?thesis
    by (subst text_lines.simps) (simp only: Cons list.case Let_def, simp)
qed

lemma output_lines_start:
  assumes "0 \<notin> set (b # bs)" and "\<not> is_eol b"
  shows "filter (\<lambda>l. l \<noteq> []) (split_eol (b # bs)) = output_lines (b # bs)"
proof -
  obtain l ls where sp: "split_eol bs = l # ls"
    using split_eol_nonempty[of bs] by (cases "split_eol bs") auto
  show ?thesis using assms(2) sp
    by (simp add: output_lines_def c_string_no_nul[OF assms(1)])
qed

lemma output_lines_text_lines:
  "0 \<notin> set s \<Longrightarrow> [] \<notin> set (tl (text_lines s)) \<Longrightarrow> output_lines s = text_lines s"
proof (induction s rule: text_lines.induct)
  case (1 out)
  define a where "a = takeWhile (\<lambda>b. \<not> is_eol b) out"
  have ae: "\<forall>b\<in>set a. \<not> is_eol b" by (auto simp: a_def dest: set_takeWhileD)
  have cs: "c_string out = out" using "1.prems"(1) by (rule c_string_no_nul)
  show ?case
  proof (cases "dropWhile (\<lambda>b. \<not> is_eol b) out")
    case Nil
    then have "\<forall>b\<in>set out. \<not> is_eol b" by (simp add: dropWhile_eq_Nil_conv)
    then have "output_lines out = [out]" using cs by (simp add: output_lines_def split_eol_no_eol)
    moreover have "text_lines out = [out]"
      by (subst text_lines.simps) (simp only: Nil list.case)
    ultimately show ?thesis by simp
  next
    case (Cons e rest)
    define rest' where "rest' = (if e = 0x0d \<and> take 1 rest = [0x0a] then tl rest else rest)"
    have out: "out = a @ e # rest"
      using Cons takeWhile_dropWhile_id[of "\<lambda>b. \<not> is_eol b" out] by (simp add: a_def)
    have ee: "is_eol e" using Cons hd_dropWhile[of "\<lambda>b. \<not> is_eol b" out] by auto
    have ol: "output_lines out = a # filter (\<lambda>l. l \<noteq> []) (split_eol rest)"
      using ae ee by (simp add: output_lines_def cs) (simp add: out split_eol_plain)
    have rr: "rest = rest' \<or> rest = 0x0a # rest'"
      by (cases rest) (auto simp: rest'_def)
    show ?thesis
    proof (cases "rest' = []")
      case True
      then have "text_lines out = [a]"
        using Cons by (subst text_lines.simps) (simp add: Let_def rest'_def a_def)
      moreover have "filter (\<lambda>l. l \<noteq> []) (split_eol rest) = []"
        using rr True by (auto simp: is_eol_def)
      ultimately show ?thesis using ol by simp
    next
      case False
      have tl: "text_lines out = a # text_lines rest'"
        using Cons False by (subst text_lines.simps) (simp add: Let_def rest'_def a_def)
      have no: "[] \<notin> set (text_lines rest')" using "1.prems"(2) tl by simp
      obtain ls where ls: "text_lines rest' = takeWhile (\<lambda>b. \<not> is_eol b) rest' # ls"
        using text_lines_hd[of rest'] by blast
      have "takeWhile (\<lambda>b. \<not> is_eol b) rest' \<noteq> []" using no ls by auto
      then obtain b bs where r': "rest' = b # bs" and nb: "\<not> is_eol b"
        by (cases rest') (auto split: if_splits)
      have z: "0 \<notin> set rest'" using "1.prems"(1) rr by (subst (asm) out) auto
      have no': "[] \<notin> set (tl (text_lines rest'))" using no ls by auto
      have ih: "output_lines rest' = text_lines rest'"
        using "1.IH"[OF Cons rest'_def False z no'] .
      have "filter (\<lambda>l. l \<noteq> []) (split_eol rest) = output_lines rest'"
        using rr output_lines_start[of b bs] z nb r' by (auto simp: is_eol_def)
      then show ?thesis using ol tl ih by simp
    qed
  qed
qed

text \<open>
  Claim C10, as amended. \<^verbatim>\<open>lua_execute\<close> returns no values when there is no first
  argument, when the first argument is neither a string nor a number, when no job object
  can be created, and when the process cannot be started (neither directly nor, after
  \<^verbatim>\<open>ERROR_FILE_NOT_FOUND\<close>, through \<^verbatim>\<open>cmd.exe /c\<close>). When the process is started, its
  output and one more allocation unit fit the reserved \<^verbatim>\<open>RESERVE\<close> bytes, the pages for
  it can be committed, the output holds no zero byte and no empty line after its first
  line, and the exit code can be read, \<^verbatim>\<open>lua_execute\<close> returns two values: a table that
  holds under the keys 1 to n the successive lines of the output (cut at CR, LF and
  CR LF), and the exit code.
\<close>

theorem lua_execute_results:
  "(stack = [] \<or> \<not> lua_isstring stack 1 \<or> \<not> job_created env
      \<or> \<not> launch_process env (lua_tostring stack 1)
     \<longrightarrow> lua_execute env stack = Some [])
   \<and> (stack \<noteq> [] \<and> lua_isstring stack 1 \<and> job_created env
      \<and> launch_process env (lua_tostring stack 1)
      \<and> 2 \<le> dwAllocationGranularity env
      \<and> length (concat (stdout_bursts env)) + dwAllocationGranularity env \<le> RESERVE
      \<and> (\<forall>off \<le> length (concat (stdout_bursts env)). commit_ok env off)
      \<and> 0 \<notin> set (concat (stdout_bursts env))
      \<and> [] \<notin> set (tl (text_lines (concat (stdout_bursts env))))
      \<and> exit_code env = Some code
     \<longrightarrow> lua_execute env stack =
          Some [LuaTable (rev (numbered 0 (text_lines (concat (stdout_bursts env))))),
                LuaNumber (uint code)])"
proof (intro conjI impI)
  assume "stack = [] \<or> \<not> lua_isstring stack 1 \<or> \<not> job_created env
      \<or> \<not> launch_process env (lua_tostring stack 1)"
  then show "lua_execute env stack = Some []"
    by (auto simp: lua_execute_def Let_def)
next
  assume a: "stack \<noteq> [] \<and> lua_isstring stack 1 \<and> job_created env
      \<and> launch_process env (lua_tostring stack 1)
      \<and> 2 \<le> dwAllocationGranularity env
      \<and> length (concat (stdout_bursts env)) + dwAllocationGranularity env \<le> RESERVE
      \<and> (\<forall>off \<le> length (concat (stdout_bursts env)). commit_ok env off)
      \<and> 0 \<notin> set (concat (stdout_bursts env))
      \<and> [] \<notin> set (tl (text_lines (concat (stdout_bursts env))))
      \<and> exit_code env = Some code"
  then have l: "output_lines (concat (stdout_bursts env)) = text_lines (concat (stdout_bursts env))"
    by (intro output_lines_text_lines) blast+
  have "lua_execute env stack =
     Some [LuaTable (rev (numbered 0 (output_lines (concat (stdout_bursts env))))),
           LuaNumber (uint (case exit_code env of None \<Rightarrow> - 1 | Some c \<Rightarrow> c))]"
    using a by (intro lua_execute_launched) blast+
  then show "lua_execute env stack =
          Some [LuaTable (rev (numbered 0 (text_lines (concat (stdout_bursts env))))),
                LuaNumber (uint code)]"
    using a l by simp
qed

lemma sample_text_lines:
  "text_lines (map of_char ''one'' @ [0x0d, 0x0a] @ map of_char ''two'' @ [0x0a])
     = [map of_char ''one'', map of_char ''two'']"
  by (simp add: text_lines.simps is_eol_def)

lemma sample_launch:
  "launch_process (sample_env\<lparr>stdout_bursts := bursts, commit_ok := commit, exit_code := code\<rparr>)
     (map of_char ''dir'')"
  by (simp add: launch_process_def sample_env_def ERROR_FILE_NOT_FOUND_def)

theorem lua_execute_results_witness:
  "lua_execute sample_env [LuaNil] = Some []
   \<and> lua_execute sample_env [LuaString (map of_char ''dir'')]
       = Some [LuaTable [(2, map of_char ''two''), (1, map of_char ''one'')], LuaNumber 0]"
proof -
  have a: "\<not> lua_isstring [LuaNil] 1" by (simp add: lua_isstring_def)
  have b: "lua_isstring [LuaString (map of_char ''dir'')] 1" by (simp add: lua_isstring_def)
  have l: "launch_process sample_env (lua_tostring [LuaString (map of_char ''dir'')] 1)"
    by (simp add: launch_process_def sample_env_def lua_tostring_def ERROR_FILE_NOT_FOUND_def)
  have o: "concat (stdout_bursts sample_env)
      = map of_char ''one'' @ [0x0d, 0x0a] @ map of_char ''two'' @ [0x0a]"
    by (simp add: sample_env_def)
  have e: "job_created sample_env" "2 \<le> dwAllocationGranularity sample_env"
    "length (concat (stdout_bursts sample_env)) + dwAllocationGranularity sample_env \<le> RESERVE"
    "\<forall>off \<le> length (concat (stdout_bursts sample_env)). commit_ok sample_env off"
    "exit_code sample_env = Some 0"
    by (simp_all add: sample_env_def RESERVE_def)
  have z: "0 \<notin> set (concat (stdout_bursts sample_env))" by (simp add: sample_env_def)
  have t: "text_lines (concat (stdout_bursts sample_env)) = [map of_char ''one'', map of_char ''two'']"
    unfolding o by (rule sample_text_lines)
  from lua_execute_results[of "[LuaNil]" sample_env]
       lua_execute_results[of "[LuaString (map of_char ''dir'')]" sample_env 0]
       a b l e z
  show ?thesis by (simp add: t)
qed

lemma uint_minus_one: "uint (- 1 :: dword) = 4294967295"
  by (simp add: unsigned_minus_1_eq_mask mask_eq_exp_minus_1)

lemma output_lines_run:
  assumes "b \<noteq> 0" and "\<not> is_eol b"
  shows "output_lines (replicate m b) = [replicate m b]"
proof -
  have "c_string (replicate m b) = replicate m b"
    using assms(1) by (intro c_string_no_nul) auto
  then show ?thesis using assms(2) output_lines_plain[of "replicate m b"] by simp
qed

text \<open>
  Claim C10 as stated fails in these ways, each on a command that \<^verbatim>\<open>cmd.exe /c\<close>
  starts.
  \<^item> A first argument that is a number is not a string, yet \<^verbatim>\<open>lua_isstring\<close> accepts it
    and the text of the number is run as a command: \<^verbatim>\<open>cmd.exe /c 42\<close> writes nothing to
    its standard output and exits with code 1, and two values are returned, a table with
    one empty line and the exit code.
  \<^item> The output \<open>a LF LF b\<close> has three lines, the second empty; the table holds two,
    \<open>a\<close> and \<open>b\<close>: \<^verbatim>\<open>next_line\<close> steps over every CR and LF that follows a line end.
  \<^item> The output \<open>a NUL b\<close> is one line of three bytes; the table holds \<open>a\<close>: the lines
    are read as C strings.
  \<^item> When the first page of the buffer cannot be committed the loop is left at once and
    \<^verbatim>\<open>next_line\<close> reads memory that is reserved and not committed: nothing is returned.
  \<^item> When \<^verbatim>\<open>GetExitCodeProcess\<close> fails the second value is what the \<^verbatim>\<open>DWORD\<close>
    \<^verbatim>\<open>proc_ret\<close> holds from \<^verbatim>\<open>proc_ret = -1\<close>, not an exit code.
  \<^item> Of an output of \<^verbatim>\<open>RESERVE\<close> bytes with no line end the table holds a line shorter
    than the output.
\<close>

theorem lua_execute_departures_counterexample:
  "lua_execute (sample_env\<lparr>stdout_bursts := [], exit_code := Some 1\<rparr>) [LuaNumber 42]
       = Some [LuaTable [(1, [])], LuaNumber 1]
   \<and> text_lines [0x61, 0x0a, 0x0a, 0x62] = [[0x61], [], [0x62]]
   \<and> lua_execute (sample_env\<lparr>stdout_bursts := [[0x61, 0x0a, 0x0a, 0x62]]\<rparr>)
         [LuaString (map of_char ''dir'')]
       = Some [LuaTable [(2, [0x62]), (1, [0x61])], LuaNumber 0]
   \<and> text_lines [0x61, 0x00, 0x62] = [[0x61, 0x00, 0x62]]
   \<and> lua_execute (sample_env\<lparr>stdout_bursts := [[0x61, 0x00, 0x62]]\<rparr>)
         [LuaString (map of_char ''dir'')]
       = Some [LuaTable [(1, [0x61])], LuaNumber 0]
   \<and> lua_execute (sample_env\<lparr>commit_ok := \<lambda>offset. False\<rparr>) [LuaString (map of_char ''dir'')]
       = None
   \<and> lua_execute (sample_env\<lparr>exit_code := None\<rparr>) [LuaString (map of_char ''dir'')]
       = Some [LuaTable [(2, map of_char ''two''), (1, map of_char ''one'')],
               LuaNumber 4294967295]
   \<and> (\<exists>m<RESERVE.
         lua_execute (sample_env\<lparr>stdout_bursts := [replicate RESERVE 0x61]\<rparr>)
           [LuaString (map of_char ''dir'')]
         = Some [LuaTable [(1, replicate m 0x61)], LuaNumber 0])"
proof -
  have s: "lua_isstring [LuaString (map of_char ''dir'')] 1" by (simp add: lua_isstring_def)
  have c: "lua_tostring [LuaString (map of_char ''dir'')] 1 = map of_char ''dir''"
    by (simp add: lua_tostring_def)
  have 1: "lua_execute (sample_env\<lparr>stdout_bursts := [], exit_code := Some 1\<rparr>) [LuaNumber 42]
       = Some [LuaTable [(1, [])], LuaNumber 1]"
  proof -
    let ?env = "sample_env\<lparr>stdout_bursts := [], exit_code := Some 1\<rparr>"
    have b: "lua_isstring [LuaNumber 42] 1" by (simp add: lua_isstring_def)
    have d: "lua_tostring [LuaNumber 42] 1 = [0x34, 0x32]" by (simp add: lua_tostring_def)
    have l: "launch_process ?env (lua_tostring [LuaNumber 42] 1)"
      by (simp add: d launch_process_def sample_env_def ERROR_FILE_NOT_FOUND_def)
    have e: "job_created ?env" "2 \<le> dwAllocationGranularity ?env"
      "length (concat (stdout_bursts ?env)) + dwAllocationGranularity ?env \<le> RESERVE"
      "\<forall>off \<le> length (concat (stdout_bursts ?env)). commit_ok ?env off"
      by (simp_all add: sample_env_def RESERVE_def)
    have o: "output_lines [] = [[]]" by (simp add: output_lines_def c_string_def)
    from lua_execute_launched[OF _ b e(1) l e(2,3,4)] o
    show ?thesis by (simp add: sample_env_def)
  qed
  have launched: "lua_execute (sample_env\<lparr>stdout_bursts := [out], exit_code := code\<rparr>)
         [LuaString (map of_char ''dir'')]
       = Some [LuaTable (rev (numbered 0 (output_lines out))),
               LuaNumber (uint (case code of None \<Rightarrow> - 1 | Some c \<Rightarrow> c))]"
    if "length out + 65536 \<le> RESERVE" for out code
  proof -
    let ?env = "sample_env\<lparr>stdout_bursts := [out], exit_code := code\<rparr>"
    have l: "launch_process ?env (lua_tostring [LuaString (map of_char ''dir'')] 1)"
      by (simp add: c launch_process_def sample_env_def ERROR_FILE_NOT_FOUND_def)
    have e: "job_created ?env" "2 \<le> dwAllocationGranularity ?env"
      "length (concat (stdout_bursts ?env)) + dwAllocationGranularity ?env \<le> RESERVE"
      "\<forall>off \<le> length (concat (stdout_bursts ?env)). commit_ok ?env off"
      using that by (simp_all add: sample_env_def)
    from lua_execute_launched[OF _ s e(1) l e(2,3,4)]
    show ?thesis by (simp add: sample_env_def)
  qed
  have 2: "text_lines [0x61, 0x0a, 0x0a, 0x62] = [[0x61], [], [0x62]]"
    by (simp add: text_lines.simps is_eol_def)
  have 3: "lua_execute (sample_env\<lparr>stdout_bursts := [[0x61, 0x0a, 0x0a, 0x62]]\<rparr>)
         [LuaString (map of_char ''dir'')]
       = Some [LuaTable [(2, [0x62]), (1, [0x61])], LuaNumber 0]"
    using launched[of "[0x61, 0x0a, 0x0a, 0x62]" "Some 0"]
    by (simp add: sample_env_def RESERVE_def output_lines_def c_string_def is_eol_def)
  have 4: "text_lines [0x61, 0x00, 0x62] = [[0x61, 0x00, 0x62]]"
    by (simp add: text_lines.simps is_eol_def)
  have 5: "lua_execute (sample_env\<lparr>stdout_bursts := [[0x61, 0x00, 0x62]]\<rparr>)
         [LuaString (map of_char ''dir'')]
       = Some [LuaTable [(1, [0x61])], LuaNumber 0]"
    using launched[of "[0x61, 0x00, 0x62]" "Some 0"]
    by (simp add: sample_env_def RESERVE_def output_lines_def c_string_def is_eol_def)
  have 6: "lua_execute (sample_env\<lparr>commit_ok := \<lambda>offset. False\<rparr>) [LuaString (map of_char ''dir'')]
       = None"
    using s c
    by (simp add: lua_execute_def Let_def launch_process_def VirtualAlloc_commit_def
        sample_env_def ERROR_FILE_NOT_FOUND_def)
  have 7: "lua_execute (sample_env\<lparr>exit_code := None\<rparr>) [LuaString (map of_char ''dir'')]
       = Some [LuaTable [(2, map of_char ''two''), (1, map of_char ''one'')],
               LuaNumber 4294967295]"
  proof -
    let ?env = "sample_env\<lparr>exit_code := None\<rparr>"
    have l: "launch_process ?env (lua_tostring [LuaString (map of_char ''dir'')] 1)"
      by (simp add: c launch_process_def sample_env_def ERROR_FILE_NOT_FOUND_def)
    have e: "job_created ?env" "2 \<le> dwAllocationGranularity ?env"
      "length (concat (stdout_bursts ?env)) + dwAllocationGranularity ?env \<le> RESERVE"
      "\<forall>off \<le> length (concat (stdout_bursts ?env)). commit_ok ?env off"
      by (simp_all add: sample_env_def RESERVE_def)
    have o: "output_lines (concat (stdout_bursts ?env)) = [map of_char ''one'', map of_char ''two'']"
      by (simp add: sample_env_def output_lines_def c_string_def is_eol_def)
    from lua_execute_launched[OF _ s e(1) l e(2,3,4)] o
    show ?thesis by (simp add: sample_env_def uint_minus_one)
  qed
  have 8: "\<exists>m<RESERVE.
         lua_execute (sample_env\<lparr>stdout_bursts := [replicate RESERVE 0x61]\<rparr>)
           [LuaString (map of_char ''dir'')]
         = Some [LuaTable [(1, replicate m 0x61)], LuaNumber 0]"
  proof -
    let ?env = "sample_env\<lparr>stdout_bursts := [replicate RESERVE 0x61]\<rparr>"
    let ?data = "collect_output (dwAllocationGranularity ?env) (VirtualAlloc_commit ?env)
                   (stdout_bursts ?env) [] 0"
    have l: "launch_process ?env (lua_tostring [LuaString (map of_char ''dir'')] 1)"
      by (simp add: c launch_process_def sample_env_def ERROR_FILE_NOT_FOUND_def)
    have e: "job_created ?env" "2 \<le> dwAllocationGranularity ?env" "VirtualAlloc_commit ?env 0"
      "exit_code ?env = Some 0"
      by (simp_all add: sample_env_def RESERVE_def VirtualAlloc_commit_def)
    obtain n where n: "?data = [] @ take n (concat (stdout_bursts ?env))"
      using collect_output_prefix by blast
    have short: "length ?data < RESERVE"
      using collect_output_short[of "dwAllocationGranularity ?env" ?env "[]" 0 "stdout_bursts ?env"]
      by (simp add: RESERVE_def)
    have "?data = replicate (min n RESERVE) 0x61" using n by simp
    then have d: "?data = replicate (length ?data) 0x61" by simp
    have o: "output_lines ?data = [replicate (length ?data) 0x61]"
      by (subst d) (simp add: output_lines_run is_eol_def)
    from lua_execute_started[OF _ s e(1) l e(2,3)] o e(4)
    have "lua_execute ?env [LuaString (map of_char ''dir'')]
        = Some [LuaTable [(1, replicate (length ?data) 0x61)], LuaNumber 0]"
      by simp
    then show ?thesis using short by blast
  qed
  show ?thesis using 1 2 3 4 5 6 7 8 by blast
qed

end
